theory Spec2Isabelle
  imports
    Main
    "HOL-Library.Char_ord"
    "HOL-Library.List_Lexorder"
    "HOL-Library.Option_ord"
    "HOL-Library.Product_Lexorder"
begin

section \<open>The posts collection\<close>

text \<open>
  The routes of \<^verbatim>\<open>routes/posts.js\<close> work on one collection of post documents. Each handler
  is modelled from the point where its middleware (\<^verbatim>\<open>protect\<close>, \<^verbatim>\<open>validatePost\<close>,
  \<^verbatim>\<open>validateComment\<close>) has passed the request on; it takes the store and returns its reply
  with the store it leaves. Every reference is taken to resolve (a post refers to exactly one
  user), so populating one only adds display fields and is left out.
  Identifiers are the strings the handlers compare (\<^verbatim>\<open>post.author.toString() !== req.user.id\<close>);
  the requests modelled carry well-formed identifiers (the mapping layer raises a cast error
  on any other).
  A string is a sequence of code units below 256, the part of the language's strings that
  the type \<open>char\<close> covers. Numbers and dates are the integers among the language's numbers
  (double-precision floats): an addition whose exact result is not such a float is rounded
  to the nearest one (\<open>round_double\<close> below), which happens from \<open>2^53\<close> on. The view counter and
  a parsed parameter are rounded so; the page arithmetic of the listings is exact and is about
  magnitudes below \<open>2^53\<close>.
  The fields of a post are those the handlers read or write; \<^verbatim>\<open>README.md\<close> lists the schema
  (\<^verbatim>\<open>likes: [{ user, createdAt }]\<close>, \<^verbatim>\<open>comments: [{ user, content, createdAt }]\<close>, each comment
  with the \<^verbatim>\<open>_id\<close> the delete route compares).
\<close>

type_synonym object_id = string

record like =
  like_user :: object_id
  like_createdAt :: int

record comment =
  comment_id :: object_id
  comment_user :: object_id
  comment_content :: string
  comment_createdAt :: int

record post =
  post_id :: object_id
  title :: string
  content :: string
  category :: string
  tags :: "string list"
  status :: string
  author :: object_id
  likes :: "like list"
  comments :: "comment list"
  viewCount :: int
  createdAt :: int

text \<open>\<^verbatim>\<open>req.user\<close>, as the \<^verbatim>\<open>protect\<close> middleware attaches it.\<close>

record req_user =
  user_id :: object_id
  role :: string

type_synonym store = "post list"

text \<open>
  The replies that are not a success. The handlers answer 404 and 401 themselves and pass
  every exception to \<^verbatim>\<open>next(error)\<close>.
\<close>

datatype error = NotFound string | Forbidden string | Unhandled

text \<open>
  The status a handler sets itself; the status of a forwarded exception is chosen by the
  error middleware, which is outside this file.
\<close>

fun status_code :: "error \<Rightarrow> nat option" where
  "status_code (NotFound m) = Some 404"
| "status_code (Forbidden m) = Some 401"
| "status_code Unhandled = None"

subsection \<open>Store operations\<close>

definition findById :: "store \<Rightarrow> object_id \<Rightarrow> post option" where
  "findById db i = find (\<lambda>p. post_id p = i) db"

text \<open>\<^verbatim>\<open>post.save()\<close>: the document with this identifier is replaced.\<close>

definition save :: "post \<Rightarrow> store \<Rightarrow> store" where
  "save p db = map (\<lambda>q. if post_id q = post_id p then p else q) db"

definition findByIdAndDelete :: "object_id \<Rightarrow> store \<Rightarrow> store" where
  "findByIdAndDelete i db = filter (\<lambda>q. post_id q \<noteq> i) db"

subsection \<open>Array helpers of the language\<close>

text \<open>\<^verbatim>\<open>Array.prototype.findIndex\<close>: the first index whose element satisfies the test, else -1.\<close>

fun findIndex :: "('a \<Rightarrow> bool) \<Rightarrow> 'a list \<Rightarrow> int" where
  "findIndex P [] = -1"
| "findIndex P (x # xs) =
     (if P x then 0 else (let r = findIndex P xs in if r = -1 then -1 else r + 1))"

text \<open>
  \<^verbatim>\<open>xs.splice(i, 1)\<close>: a negative start counts from the end, a start beyond the end removes
  nothing.
\<close>

definition splice1 :: "int \<Rightarrow> 'a list \<Rightarrow> 'a list" where
  "splice1 i xs =
     (let n = int (length xs);
          s = (if i < 0 then max (n + i) 0 else min i n)
      in take (nat s) xs @ drop (Suc (nat s)) xs)"

subsection \<open>Numbers of the language\<close>

text \<open>
  The distance between neighbouring floats at a non-negative integer: 1 below \<open>2^53\<close>, doubling
  with every further bit.
\<close>

function ulp :: "int \<Rightarrow> int" where
  "ulp a = (if a < 9007199254740992 then 1 else 2 * ulp (a div 2))"
  by pat_completeness auto
termination
  by (relation "measure nat") auto

declare ulp.simps [simp del]

text \<open>
  The float nearest to an integer, a tie going to the even significand. (An integer of
  magnitude \<open>2^1024\<close> or more has no finite float; no stored counter is one.)
\<close>

definition round_double :: "int \<Rightarrow> int" where
  "round_double x =
     (let a = \<bar>x\<bar>; s = ulp a; q = a div s; r = a mod s;
          q' = (if 2 * r < s then q else if s < 2 * r then q + 1
                else if even q then q else q + 1)
      in sgn x * (q' * s))"

subsection \<open>GET /:id\<close>

definition hidden_from :: "post \<Rightarrow> req_user option \<Rightarrow> bool" where
  "hidden_from p u =
     (status p \<noteq> ''published'' \<and>
      (case u of None \<Rightarrow> True | Some v \<Rightarrow> user_id v \<noteq> author p))"

definition get_post :: "store \<Rightarrow> req_user option \<Rightarrow> object_id \<Rightarrow> (error + post) \<times> store" where
  "get_post db u i =
     (case findById db i of
        None \<Rightarrow> (Inl (NotFound ''Post not found''), db)
      | Some p \<Rightarrow>
          if hidden_from p u then (Inl (NotFound ''Post not found''), db)
          else (let p' = p\<lparr>viewCount := round_double (viewCount p + 1)\<rparr>
                in (Inr p', save p' db)))"

text \<open>Requests to \<^verbatim>\<open>GET /:id\<close> one after the other, each on the store the one before left.\<close>

fun get_posts :: "store \<Rightarrow> req_user option list \<Rightarrow> object_id \<Rightarrow> (error + post) list \<times> store" where
  "get_posts db [] i = ([], db)"
| "get_posts db (u # us) i =
     (let (r, db') = get_post db u i;
          (rs, db'') = get_posts db' us i
      in (r # rs, db''))"

subsection \<open>POST /, PUT /:id, DELETE /:id\<close>

text \<open>
  \<^verbatim>\<open>req.body\<close>: every field may be present or absent. The handlers hand the body to the
  mapping layer as it is, so a body can carry any path of the schema; the record has the
  paths of the post record above.
\<close>

record payload =
  b_title :: "string option"
  b_content :: "string option"
  b_category :: "string option"
  b_tags :: "string list option"
  b_status :: "string option"
  b_author :: "object_id option"
  b_likes :: "like list option"
  b_comments :: "comment list option"
  b_viewCount :: "int option"

text \<open>
  The validators of the schema as \<^verbatim>\<open>README.md\<close> documents them (Post Model): title required,
  at most 200 characters; content required, at most 5000; tags at most 30 each; category at
  most 50; status one of the three states. An update runs them on the paths it sets
  (\<^verbatim>\<open>runValidators: true\<close>); a required string must not be empty.
\<close>

definition status_enum :: "string list" where
  "status_enum = [''draft'', ''published'', ''archived'']"

definition runValidators :: "payload \<Rightarrow> bool" where
  "runValidators b =
     ((case b_title b of None \<Rightarrow> True | Some t \<Rightarrow> t \<noteq> [] \<and> length t \<le> 200) \<and>
      (case b_content b of None \<Rightarrow> True | Some c \<Rightarrow> c \<noteq> [] \<and> length c \<le> 5000) \<and>
      (case b_category b of None \<Rightarrow> True | Some c \<Rightarrow> length c \<le> 50) \<and>
      (case b_tags b of None \<Rightarrow> True | Some ts \<Rightarrow> list_all (\<lambda>t. length t \<le> 30) ts) \<and>
      (case b_status b of None \<Rightarrow> True | Some s \<Rightarrow> s \<in> set status_enum))"

text \<open>The update document sets every path the body carries and leaves the others.\<close>

definition or_else :: "'a option \<Rightarrow> 'a \<Rightarrow> 'a" where
  "or_else v d = (case v of None \<Rightarrow> d | Some x \<Rightarrow> x)"

definition apply_update :: "payload \<Rightarrow> post \<Rightarrow> post" where
  "apply_update b p =
     p\<lparr>title := or_else (b_title b) (title p),
       content := or_else (b_content b) (content p),
       category := or_else (b_category b) (category p),
       tags := or_else (b_tags b) (tags p),
       status := or_else (b_status b) (status p),
       author := or_else (b_author b) (author p),
       likes := or_else (b_likes b) (likes p),
       comments := or_else (b_comments b) (comments p),
       viewCount := or_else (b_viewCount b) (viewCount p)\<rparr>"

definition update_post :: "store \<Rightarrow> req_user \<Rightarrow> object_id \<Rightarrow> payload \<Rightarrow> (error + post) \<times> store" where
  "update_post db u i b =
     (case findById db i of
        None \<Rightarrow> (Inl (NotFound ''Post not found''), db)
      | Some p \<Rightarrow>
          if author p \<noteq> user_id u \<and> role u \<noteq> ''admin''
          then (Inl (Forbidden ''Not authorized to update this post''), db)
          else if \<not> runValidators b then (Inl Unhandled, db)
          else (let p' = apply_update b p in (Inr p', save p' db)))"

definition delete_post :: "store \<Rightarrow> req_user \<Rightarrow> object_id \<Rightarrow> (error + unit) \<times> store" where
  "delete_post db u i =
     (case findById db i of
        None \<Rightarrow> (Inl (NotFound ''Post not found''), db)
      | Some p \<Rightarrow>
          if author p \<noteq> user_id u \<and> role u \<noteq> ''admin''
          then (Inl (Forbidden ''Not authorized to delete this post''), db)
          else (Inr (), findByIdAndDelete i db))"

text \<open>
  \<^verbatim>\<open>POST /\<close>: the author of the body is overwritten with the caller, then the document is
  created from the body. The identifier and the creation time are the ones the mapping layer
  generates; the schema's default status is declared in \<^verbatim>\<open>models/Post.js\<close> and is a
  parameter here. Title and content are required.
\<close>

definition create_post ::
  "string \<Rightarrow> store \<Rightarrow> req_user \<Rightarrow> payload \<Rightarrow> object_id \<Rightarrow> int \<Rightarrow> (error + post) \<times> store" where
  "create_post default_status db u b new_id now =
     (let b' = b\<lparr>b_author := Some (user_id u)\<rparr>
      in if b_title b' = None \<or> b_content b' = None \<or> \<not> runValidators b'
         then (Inl Unhandled, db)
         else (let p = \<lparr>post_id = new_id,
                         title = or_else (b_title b') [],
                         content = or_else (b_content b') [],
                         category = or_else (b_category b') [],
                         tags = or_else (b_tags b') [],
                         status = or_else (b_status b') default_status,
                         author = or_else (b_author b') (user_id u),
                         likes = or_else (b_likes b') [],
                         comments = or_else (b_comments b') [],
                         viewCount = or_else (b_viewCount b') 0,
                         createdAt = now\<rparr>
               in (Inr p, db @ [p])))"

subsection \<open>PUT /:id/like\<close>

record like_response =
  liked :: bool
  likeCount :: nat

definition toggle_like ::
  "store \<Rightarrow> req_user \<Rightarrow> object_id \<Rightarrow> int \<Rightarrow> (error + like_response) \<times> store" where
  "toggle_like db u i now =
     (case findById db i of
        None \<Rightarrow> (Inl (NotFound ''Post not found''), db)
      | Some p \<Rightarrow>
          (let likeIndex = findIndex (\<lambda>l. like_user l = user_id u) (likes p)
           in if likeIndex > -1
              then (let p' = p\<lparr>likes := splice1 likeIndex (likes p)\<rparr>
                    in (Inr \<lparr>liked = False, likeCount = length (likes p')\<rparr>, save p' db))
              else (let p' = p\<lparr>likes := \<lparr>like_user = user_id u, like_createdAt = now\<rparr> # likes p\<rparr>
                    in (Inr \<lparr>liked = True, likeCount = length (likes p')\<rparr>, save p' db))))"

subsection \<open>POST /:id/comments, DELETE /:id/comments/:commentId\<close>

definition add_comment ::
  "store \<Rightarrow> req_user \<Rightarrow> object_id \<Rightarrow> string \<Rightarrow> object_id \<Rightarrow> int \<Rightarrow> (error + comment) \<times> store" where
  "add_comment db u i msg new_id now =
     (case findById db i of
        None \<Rightarrow> (Inl (NotFound ''Post not found''), db)
      | Some p \<Rightarrow>
          (let newComment = \<lparr>comment_id = new_id, comment_user = user_id u,
                             comment_content = msg, comment_createdAt = now\<rparr>;
               p' = p\<lparr>comments := newComment # comments p\<rparr>
           in (Inr newComment, save p' db)))"

definition delete_comment ::
  "store \<Rightarrow> req_user \<Rightarrow> object_id \<Rightarrow> object_id \<Rightarrow> (error + unit) \<times> store" where
  "delete_comment db u i commentId =
     (case findById db i of
        None \<Rightarrow> (Inl (NotFound ''Post not found''), db)
      | Some p \<Rightarrow>
          (case find (\<lambda>c. comment_id c = commentId) (comments p) of
             None \<Rightarrow> (Inl (NotFound ''Comment not found''), db)
           | Some c \<Rightarrow>
               if comment_user c \<noteq> user_id u \<and> author p \<noteq> user_id u \<and> role u \<noteq> ''admin''
               then (Inl (Forbidden ''Not authorized to delete this comment''), db)
               else (let removeIndex = findIndex (\<lambda>c. comment_id c = commentId) (comments p);
                         p' = p\<lparr>comments := splice1 removeIndex (comments p)\<rparr>
                     in (Inr (), save p' db))))"

section \<open>Listings\<close>

subsection \<open>Query string\<close>

text \<open>\<^verbatim>\<open>req.query\<close>: each parameter is a string or absent.\<close>

record query =
  q_page :: "string option"
  q_limit :: "string option"
  q_category :: "string option"
  q_tags :: "string option"
  q_search :: "string option"
  q_author :: "string option"
  q_sortBy :: "string option"
  q_status :: "string option"

text \<open>
  \<^verbatim>\<open>parseInt(s, 10)\<close>: leading white space is skipped (among the code units below 256:
  tab, line feed, vertical tab, form feed, carriage return, space and the no-break space), a
  sign is read, then the longest run of decimal digits, whose value is rounded to a float; no
  digit gives NaN (\<open>None\<close>). An absent parameter gives NaN too.
\<close>

definition is_space :: "char \<Rightarrow> bool" where
  "is_space c =
     (c \<in> set [CHR '' '', CHR 0x09, CHR 0x0A, CHR 0x0B, CHR 0x0C, CHR 0x0D, CHR 0xA0])"

definition is_digit :: "char \<Rightarrow> bool" where
  "is_digit c = (c \<in> set ''0123456789'')"

definition digit_val :: "char \<Rightarrow> int" where
  "digit_val c = int (of_char c) - 48"

definition parseInt10 :: "string option \<Rightarrow> int option" where
  "parseInt10 v =
     (case v of
        None \<Rightarrow> None
      | Some s \<Rightarrow>
          (let t = dropWhile is_space s;
               neg = (t \<noteq> [] \<and> hd t = CHR ''-'');
               r = (if t \<noteq> [] \<and> (hd t = CHR ''-'' \<or> hd t = CHR ''+'') then tl t else t);
               ds = takeWhile is_digit r
           in if ds = [] then None
              else Some (round_double
                     ((if neg then -1 else 1) * fold (\<lambda>c a. 10 * a + digit_val c) ds 0))))"

text \<open>\<^verbatim>\<open>parseInt(...) || d\<close>: NaN and 0 are falsy.\<close>

definition or_default :: "int option \<Rightarrow> int \<Rightarrow> int" where
  "or_default n d = (case n of None \<Rightarrow> d | Some v \<Rightarrow> if v = 0 then d else v)"

definition page_of :: "query \<Rightarrow> int" where
  "page_of q = or_default (parseInt10 (q_page q)) 1"

definition limit_of :: "query \<Rightarrow> int" where
  "limit_of q = or_default (parseInt10 (q_limit q)) 10"

definition startIndex :: "query \<Rightarrow> int" where
  "startIndex q = (page_of q - 1) * limit_of q"

text \<open>\<^verbatim>\<open>if (req.query.x)\<close>: an absent parameter and the empty string are falsy.\<close>

definition truthy :: "string option \<Rightarrow> bool" where
  "truthy v = (case v of None \<Rightarrow> False | Some s \<Rightarrow> s \<noteq> [])"

text \<open>\<^verbatim>\<open>s.split(',')\<close>\<close>

fun split_comma :: "string \<Rightarrow> string list" where
  "split_comma [] = [[]]"
| "split_comma (c # cs) =
     (if c = CHR '','' then [] # split_comma cs
      else (case split_comma cs of [] \<Rightarrow> [[c]] | w # ws \<Rightarrow> (c # w) # ws))"

subsection \<open>Filters\<close>

text \<open>
  The filter object a handler builds. A regular expression is matched by the store; its engine
  is a parameter \<open>rx pattern subject\<close> (case-insensitive, as \<^verbatim>\<open>$options: 'i'\<close> asks).
\<close>

record filter_spec =
  f_status :: "string option"
  f_category :: "string option"
  f_tags :: "string list option"
  f_search :: "string option"
  f_author :: "object_id option"

definition matches :: "(string \<Rightarrow> string \<Rightarrow> bool) \<Rightarrow> filter_spec \<Rightarrow> post \<Rightarrow> bool" where
  "matches rx f p =
     ((case f_status f of None \<Rightarrow> True | Some s \<Rightarrow> status p = s) \<and>
      (case f_category f of None \<Rightarrow> True | Some c \<Rightarrow> rx c (category p)) \<and>
      (case f_tags f of None \<Rightarrow> True | Some ts \<Rightarrow> list_ex (\<lambda>t. t \<in> set ts) (tags p)) \<and>
      (case f_search f of None \<Rightarrow> True | Some s \<Rightarrow> rx s (title p) \<or> rx s (content p)) \<and>
      (case f_author f of None \<Rightarrow> True | Some a \<Rightarrow> author p = a))"

definition build_query :: "query \<Rightarrow> filter_spec" where
  "build_query q =
     \<lparr>f_status = Some ''published'',
      f_category = (if truthy (q_category q) then q_category q else None),
      f_tags = (if truthy (q_tags q) then Some (split_comma (or_else (q_tags q) [])) else None),
      f_search = (if truthy (q_search q) then q_search q else None),
      f_author = (if truthy (q_author q) then q_author q else None)\<rparr>"

definition build_my_query :: "req_user \<Rightarrow> query \<Rightarrow> filter_spec" where
  "build_my_query u q =
     \<lparr>f_status = (if truthy (q_status q) then q_status q else None),
      f_category = None, f_tags = None, f_search = None,
      f_author = Some (user_id u)\<rparr>"

subsection \<open>Sort keys\<close>

datatype sort_field = CreatedAt | ViewCount | Likes | Title

definition sortBy :: "string option \<Rightarrow> sort_field \<times> int" where
  "sortBy v =
     (if truthy v then
        (let s = or_else v [] in
         if s = ''oldest'' then (CreatedAt, 1)
         else if s = ''popular'' then (ViewCount, -1)
         else if s = ''mostLiked'' then (Likes, -1)
         else if s = ''title'' then (Title, 1)
         else (CreatedAt, -1))
      else (CreatedAt, -1))"

text \<open>
  How the store orders documents on a field. Numbers, dates and strings compare by value.
  An array field compares by one of its elements: the greatest in a descending sort, the least
  in an ascending one, and an empty array before every other; embedded documents compare
  field by field in stored order (for a like: user, then creation time).
\<close>

definition like_key :: "like \<Rightarrow> object_id \<times> int" where
  "like_key l = (like_user l, like_createdAt l)"

fun greatest :: "('a::linorder) list \<Rightarrow> 'a option" where
  "greatest [] = None"
| "greatest (x # xs) = (case greatest xs of None \<Rightarrow> Some x | Some m \<Rightarrow> Some (max x m))"

fun least :: "('a::linorder) list \<Rightarrow> 'a option" where
  "least [] = None"
| "least (x # xs) = (case least xs of None \<Rightarrow> Some x | Some m \<Rightarrow> Some (min x m))"

definition directed :: "int \<Rightarrow> 'a list \<Rightarrow> 'a list" where
  "directed d xs = (if d < 0 then rev xs else xs)"

definition sort_posts :: "sort_field \<times> int \<Rightarrow> post list \<Rightarrow> post list" where
  "sort_posts sb ps =
     (case sb of
        (CreatedAt, d) \<Rightarrow> directed d (sort_key createdAt ps)
      | (ViewCount, d) \<Rightarrow> directed d (sort_key viewCount ps)
      | (Title, d) \<Rightarrow> directed d (sort_key title ps)
      | (Likes, d) \<Rightarrow>
          (if d < 0 then rev (sort_key (\<lambda>p. greatest (map like_key (likes p))) ps)
           else sort_key (\<lambda>p. least (map like_key (likes p))) ps))"

subsection \<open>Pages\<close>

text \<open>
  \<^verbatim>\<open>.limit(n).skip(k)\<close>: the store skips first, then limits, whatever the order of the calls.
  A negative skip is refused by the store (the exception goes to \<^verbatim>\<open>next(error)\<close>); a negative
  limit is taken by its absolute value and a limit of 0 is no limit.
\<close>

definition limit_skip :: "int \<Rightarrow> int \<Rightarrow> 'a list \<Rightarrow> error + 'a list" where
  "limit_skip lim k xs =
     (if k < 0 then Inl Unhandled
      else if lim = 0 then Inr (drop (nat k) xs)
      else Inr (take (nat \<bar>lim\<bar>) (drop (nat k) xs)))"

record page_result =
  pg_count :: nat
  pg_total :: nat
  pg_next :: "(int \<times> int) option"
  pg_prev :: "(int \<times> int) option"
  pg_posts :: "post list"

definition paginate :: "query \<Rightarrow> post list \<Rightarrow> error + page_result" where
  "paginate q found =
     (let page = page_of q; limit = limit_of q; start = startIndex q; total = length found
      in case limit_skip (limit * 1) start found of
           Inl e \<Rightarrow> Inl e
         | Inr posts \<Rightarrow>
             Inr \<lparr>pg_count = length posts,
                  pg_total = total,
                  pg_next = (if start + limit < int total then Some (page + 1, limit) else None),
                  pg_prev = (if start > 0 then Some (page - 1, limit) else None),
                  pg_posts = posts\<rparr>)"

subsection \<open>GET / and GET /my/posts\<close>

definition list_posts :: "(string \<Rightarrow> string \<Rightarrow> bool) \<Rightarrow> store \<Rightarrow> query \<Rightarrow> error + page_result" where
  "list_posts rx db q =
     paginate q (sort_posts (sortBy (q_sortBy q)) (filter (matches rx (build_query q)) db))"

definition my_posts ::
  "(string \<Rightarrow> string \<Rightarrow> bool) \<Rightarrow> store \<Rightarrow> req_user \<Rightarrow> query \<Rightarrow> error + page_result" where
  "my_posts rx db u q =
     paginate q (sort_posts (CreatedAt, -1) (filter (matches rx (build_my_query u q)) db))"

section \<open>The like invariant\<close>

text \<open>At most one like of a user on a post.\<close>

definition one_like_per_user :: "post \<Rightarrow> bool" where
  "one_like_per_user p = distinct (map like_user (likes p))"

section \<open>Sample data\<close>

text \<open>
  A regular expression without metacharacters matches where it occurs, whatever the case.
  This matcher stands for the store's engine in the concrete runs below.
\<close>

definition to_lower :: "char \<Rightarrow> char" where
  "to_lower c = (if CHR ''A'' \<le> c \<and> c \<le> CHR ''Z'' then char_of (of_char c + (32::nat)) else c)"

fun occurs_in :: "string \<Rightarrow> string \<Rightarrow> bool" where
  "occurs_in pat [] = (pat = [])"
| "occurs_in pat (c # cs) = (take (length pat) (c # cs) = pat \<or> occurs_in pat cs)"

definition literal_rx :: "string \<Rightarrow> string \<Rightarrow> bool" where
  "literal_rx pat s = occurs_in (map to_lower pat) (map to_lower s)"

definition alice :: req_user where
  "alice = \<lparr>user_id = ''u1'', role = ''user''\<rparr>"

definition bob :: req_user where
  "bob = \<lparr>user_id = ''u2'', role = ''user''\<rparr>"

definition admin :: req_user where
  "admin = \<lparr>user_id = ''u9'', role = ''admin''\<rparr>"

definition note1 :: comment where
  "note1 = \<lparr>comment_id = ''c1'', comment_user = ''u2'', comment_content = ''first'',
            comment_createdAt = 150\<rparr>"

definition draft1 :: post where
  "draft1 = \<lparr>post_id = ''p1'', title = ''A'', content = ''B'', category = ''Tech'', tags = [],
             status = ''draft'', author = ''u1'', likes = [], comments = [note1],
             viewCount = 0, createdAt = 100\<rparr>"

definition quiet :: post where
  "quiet = \<lparr>post_id = ''p2'', title = ''Quiet'', content = ''q'', category = ''Tech'', tags = [],
            status = ''published'', author = ''u1'',
            likes = [\<lparr>like_user = ''u9'', like_createdAt = 300\<rparr>], comments = [],
            viewCount = 5, createdAt = 200\<rparr>"

definition loved :: post where
  "loved = \<lparr>post_id = ''p3'', title = ''Loved'', content = ''l'', category = ''Tech'', tags = [],
            status = ''published'', author = ''u2'',
            likes = [\<lparr>like_user = ''u2'', like_createdAt = 260\<rparr>,
                     \<lparr>like_user = ''u1'', like_createdAt = 250\<rparr>], comments = [],
            viewCount = 7, createdAt = 210\<rparr>"

definition maxed :: post where
  "maxed = \<lparr>post_id = ''p6'', title = ''Maxed'', content = ''m'', category = ''Tech'', tags = [],
            status = ''published'', author = ''u1'', likes = [], comments = [],
            viewCount = 9007199254740992, createdAt = 220\<rparr>"

definition carol :: req_user where
  "carol = \<lparr>user_id = ''u3'', role = ''user''\<rparr>"

definition reply1 :: comment where
  "reply1 = \<lparr>comment_id = ''c3'', comment_user = ''u1'', comment_content = ''one'',
             comment_createdAt = 310\<rparr>"

definition reply2 :: comment where
  "reply2 = \<lparr>comment_id = ''c4'', comment_user = ''u2'', comment_content = ''two'',
             comment_createdAt = 320\<rparr>"

definition reply3 :: comment where
  "reply3 = \<lparr>comment_id = ''c5'', comment_user = ''u3'', comment_content = ''three'',
             comment_createdAt = 330\<rparr>"

definition thread :: post where
  "thread = \<lparr>post_id = ''p4'', title = ''Thread'', content = ''t'', category = ''Talk'',
             tags = [], status = ''published'', author = ''u1'', likes = [],
             comments = [reply3, reply2, reply1], viewCount = 0, createdAt = 300\<rparr>"

definition doubled :: post where
  "doubled = \<lparr>post_id = ''p1'', title = ''A'', content = ''B'', category = ''Tech'', tags = [],
              status = ''draft'', author = ''u1'',
              likes = [\<lparr>like_user = ''u2'', like_createdAt = 1\<rparr>,
                       \<lparr>like_user = ''u2'', like_createdAt = 2\<rparr>],
              comments = [note1], viewCount = 0, createdAt = 100\<rparr>"

definition retitle_and_reassign :: payload where
  "retitle_and_reassign =
     \<lparr>b_title = Some ''A2'', b_content = Some ''B'', b_category = None, b_tags = None,
      b_status = None, b_author = Some ''u2'', b_likes = None, b_comments = None,
      b_viewCount = None\<rparr>"

definition stuffed_likes :: payload where
  "stuffed_likes =
     \<lparr>b_title = Some ''A'', b_content = Some ''B'', b_category = None, b_tags = None,
      b_status = None, b_author = None,
      b_likes = Some [\<lparr>like_user = ''u2'', like_createdAt = 1\<rparr>,
                      \<lparr>like_user = ''u2'', like_createdAt = 2\<rparr>],
      b_comments = None, b_viewCount = None\<rparr>"

definition no_params :: query where
  "no_params = \<lparr>q_page = None, q_limit = None, q_category = None, q_tags = None,
                q_search = None, q_author = None, q_sortBy = None, q_status = None\<rparr>"

definition most_liked :: query where
  "most_liked = \<lparr>q_page = None, q_limit = None, q_category = None, q_tags = None,
                 q_search = None, q_author = None, q_sortBy = Some ''mostLiked'',
                 q_status = None\<rparr>"

definition second_of_one :: query where
  "second_of_one = \<lparr>q_page = Some ''2'', q_limit = Some ''1'', q_category = None, q_tags = None,
                    q_search = None, q_author = None, q_sortBy = None, q_status = None\<rparr>"

definition third_page :: query where
  "third_page = \<lparr>q_page = Some ''3'', q_limit = None, q_category = None, q_tags = None,
                 q_search = None, q_author = None, q_sortBy = None, q_status = None\<rparr>"

definition noisy_params :: query where
  "noisy_params = \<lparr>q_page = None, q_limit = None, q_category = Some ''Cooking'',
                   q_tags = Some ''a,b'', q_search = Some ''zzz'', q_author = Some ''u2'',
                   q_sortBy = Some ''title'', q_status = None\<rparr>"

section \<open>Facts about the store and the array helpers\<close>

lemma findById_post_id: "findById db i = Some p \<Longrightarrow> post_id p = i"
  unfolding findById_def by (induction db) (auto split: if_splits)

lemma findById_mem: "findById db i = Some p \<Longrightarrow> p \<in> set db"
  unfolding findById_def by (induction db) (auto split: if_splits)

lemma findById_save:
  "findById db i = Some p \<Longrightarrow> post_id p' = i \<Longrightarrow> findById (save p' db) i = Some p'"
  unfolding findById_def save_def by (induction db) (auto split: if_splits)

lemma findById_delete: "findById (findByIdAndDelete i db) i = None"
  unfolding findById_def findByIdAndDelete_def by (induction db) auto

lemma list_all_save: "list_all Q db \<Longrightarrow> Q p \<Longrightarrow> list_all Q (save p db)"
  by (induction db) (auto simp: save_def)

lemma list_all_findById: "list_all Q db \<Longrightarrow> findById db i = Some p \<Longrightarrow> Q p"
  using findById_mem [of db i p] by (simp add: list_all_iff)

lemma findById_save_other: "post_id p' \<noteq> j \<Longrightarrow> findById (save p' db) j = findById db j"
  unfolding findById_def save_def by (induction db) auto

lemma ulp_small: "a < 9007199254740992 \<Longrightarrow> ulp a = 1"
  by (subst ulp.simps) simp

lemma ulp_edge: "ulp 9007199254740992 = 2"
  by (subst ulp.simps) (simp add: ulp_small)

lemma round_double_exact: "\<bar>x\<bar> \<le> 9007199254740992 \<Longrightarrow> round_double x = x"
proof (cases "\<bar>x\<bar> < 9007199254740992")
  case True
  then have "ulp \<bar>x\<bar> = 1" by (simp add: ulp_small)
  then show ?thesis by (simp add: round_double_def Let_def sgn_if)
next
  case False
  assume "\<bar>x\<bar> \<le> 9007199254740992"
  with False have a: "\<bar>x\<bar> = 9007199254740992" by simp
  then have "sgn x * 9007199254740992 = x" by (cases "0 < x") (auto simp: sgn_if)
  then show ?thesis by (simp add: round_double_def a ulp_edge Let_def)
qed

lemma findIndex_ge: "-1 \<le> findIndex P xs"
  by (induction xs) (auto simp: Let_def)

lemma findIndex_neg_iff: "findIndex P xs = -1 \<longleftrightarrow> (\<forall>x\<in>set xs. \<not> P x)"
proof (induction xs)
  case Nil
  then show ?case by simp
next
  case (Cons x xs)
  have "-1 \<le> findIndex P xs" by (rule findIndex_ge)
  with Cons show ?case by (auto simp: Let_def)
qed

lemma findIndex_first:
  "(\<forall>y\<in>set ys. \<not> P y) \<Longrightarrow> P c \<Longrightarrow> findIndex P (ys @ c # zs) = int (length ys)"
  by (induction ys) (auto simp: Let_def)

lemma splice1_at: "splice1 (int (length ys)) (ys @ c # zs) = ys @ zs"
  by (simp add: splice1_def Let_def)

lemma distinct_splice1: "distinct (map f xs) \<Longrightarrow> distinct (map f (splice1 i xs))"
proof -
  assume d: "distinct (map f xs)"
  have "distinct (take n (map f xs) @ drop (Suc n) (map f xs))" for n
    using d set_take_disj_set_drop_if_distinct [of "map f xs" n "Suc n"] by simp
  then show ?thesis by (simp add: splice1_def Let_def take_map drop_map)
qed

lemma find_split:
  "find P xs = Some c \<Longrightarrow> \<exists>ys zs. xs = ys @ c # zs \<and> P c \<and> (\<forall>y\<in>set ys. \<not> P y)"
proof (induction xs)
  case Nil
  then show ?case by simp
next
  case (Cons x xs)
  show ?case
  proof (cases "P x")
    case True
    with Cons.prems have "x = c" by simp
    with True have "x # xs = [] @ c # xs \<and> P c \<and> (\<forall>y\<in>set []. \<not> P y)" by simp
    then show ?thesis by blast
  next
    case False
    with Cons.prems have "find P xs = Some c" by simp
    from Cons.IH [OF this] obtain ys zs where
      "xs = ys @ c # zs" "P c" "\<forall>y\<in>set ys. \<not> P y" by blast
    with False have "x # xs = (x # ys) @ c # zs \<and> P c \<and> (\<forall>y\<in>set (x # ys). \<not> P y)"
      by simp
    then show ?thesis by blast
  qed
qed

lemma split_first:
  "\<exists>x\<in>set xs. P x \<Longrightarrow> \<exists>ys c zs. xs = ys @ c # zs \<and> P c \<and> (\<forall>y\<in>set ys. \<not> P y)"
  using split_list_first_prop [of xs P] by blast

lemma remove1_first: "(\<forall>y\<in>set ys. y \<noteq> c) \<Longrightarrow> remove1 c (ys @ c # zs) = ys @ zs"
  by (induction ys) auto

section \<open>Single post\<close>

subsection \<open>Visibility\<close>

text \<open>
  C4. A post whose status is not \<^verbatim>\<open>published\<close>, fetched by a caller who is not its author
  (nobody, another user, an admin: the role is not read), is answered as not found, with
  status 404 and the store untouched. The post is returned exactly when it is published or
  the caller is its author, and the only failure of the route on a stored post is that 404.
\<close>

theorem get_post_visibility:
  assumes "findById db i = Some p"
  shows "(status p \<noteq> ''published'' \<and> (u = None \<or> (\<exists>v. u = Some v \<and> user_id v \<noteq> author p)) \<longrightarrow>
            get_post db u i = (Inl (NotFound ''Post not found''), db) \<and>
            status_code (NotFound ''Post not found'') = Some 404)
       \<and> ((\<exists>p'. fst (get_post db u i) = Inr p') \<longleftrightarrow>
            (status p = ''published'' \<or> (\<exists>v. u = Some v \<and> user_id v = author p)))
       \<and> (\<forall>e. fst (get_post db u i) = Inl e \<longrightarrow> e = NotFound ''Post not found'')"
  using assms by (auto simp: get_post_def hidden_from_def Let_def split: option.splits)

theorem get_post_visibility_witness:
  "findById [draft1] ''p1'' = Some draft1 \<and> status draft1 \<noteq> ''published'' \<and>
   user_id admin \<noteq> author draft1 \<and> role admin = ''admin'' \<and>
   get_post [draft1] (Some admin) ''p1'' = (Inl (NotFound ''Post not found''), [draft1]) \<and>
   get_post [draft1] None ''p1'' = (Inl (NotFound ''Post not found''), [draft1])"
proof -
  have h: "findById [draft1] ''p1'' = Some draft1" by (simp add: findById_def draft1_def)
  have a: "status draft1 \<noteq> ''published''" by (simp add: draft1_def)
  have b: "user_id admin \<noteq> author draft1" by (simp add: draft1_def admin_def)
  have c: "role admin = ''admin''" by (simp add: admin_def)
  have "get_post [draft1] (Some admin) ''p1'' = (Inl (NotFound ''Post not found''), [draft1])"
    using get_post_visibility [OF h, of "Some admin"] a b by blast
  moreover
  have "get_post [draft1] None ''p1'' = (Inl (NotFound ''Post not found''), [draft1])"
    using get_post_visibility [OF h, of None] a by blast
  ultimately show ?thesis using h a b c by blast
qed

subsection \<open>View counter\<close>

lemma get_post_step:
  assumes "findById db i = Some p"
  shows "get_post db u i =
           (if hidden_from p u then (Inl (NotFound ''Post not found''), db)
            else (Inr (p\<lparr>viewCount := round_double (viewCount p + 1)\<rparr>),
                  save (p\<lparr>viewCount := round_double (viewCount p + 1)\<rparr>) db))"
  using assms by (simp add: get_post_def Let_def)

lemma hidden_from_viewCount: "hidden_from (p\<lparr>viewCount := n\<rparr>) u = hidden_from p u"
  by (cases u) (simp_all add: hidden_from_def)

lemma get_posts_trace:
  assumes "findById db i = Some p" and "get_posts db us i = (rs, db')"
      and "- 9007199254740992 \<le> viewCount p"
      and "viewCount p + int (length us) \<le> 9007199254740992"
  shows "length rs = length us \<and>
         findById db' i =
           Some (p\<lparr>viewCount := viewCount p + int (length (filter (\<lambda>r. \<not> isl r) rs))\<rparr>) \<and>
         map (\<lambda>r. \<not> isl r) rs = map (\<lambda>u. \<not> hidden_from p u) us"
  using assms
proof (induction us arbitrary: db p rs db')
  case Nil
  then show ?case by simp
next
  case (Cons u us)
  show ?case
  proof (cases "hidden_from p u")
    case True
    with Cons.prems(1) have g: "get_post db u i = (Inl (NotFound ''Post not found''), db)"
      by (simp add: get_post_step)
    obtain rs1 db1 where r: "get_posts db us i = (rs1, db1)" by (cases "get_posts db us i")
    with g Cons.prems(2) have e: "rs = Inl (NotFound ''Post not found'') # rs1" "db' = db1"
      by simp_all
    have b: "viewCount p + int (length us) \<le> 9007199254740992" using Cons.prems(4) by simp
    from Cons.IH [OF Cons.prems(1) r Cons.prems(3) b] e True show ?thesis by simp
  next
    case False
    let ?p = "p\<lparr>viewCount := viewCount p + 1\<rparr>"
    have "\<bar>viewCount p + 1\<bar> \<le> 9007199254740992" using Cons.prems(3,4) by simp
    then have x: "round_double (viewCount p + 1) = viewCount p + 1"
      by (rule round_double_exact)
    from False Cons.prems(1) have g: "get_post db u i = (Inr ?p, save ?p db)"
      by (simp add: get_post_step x)
    have pid: "post_id ?p = i" using findById_post_id [OF Cons.prems(1)] by simp
    have f: "findById (save ?p db) i = Some ?p"
      by (rule findById_save [OF Cons.prems(1) pid])
    obtain rs1 db1 where r: "get_posts (save ?p db) us i = (rs1, db1)"
      by (cases "get_posts (save ?p db) us i")
    with g Cons.prems(2) have e: "rs = Inr ?p # rs1" "db' = db1" by simp_all
    have lo: "- 9007199254740992 \<le> viewCount ?p" using Cons.prems(3) by simp
    have hi: "viewCount ?p + int (length us) \<le> 9007199254740992" using Cons.prems(4) by simp
    from Cons.IH [OF f r lo hi] e False show ?thesis by (simp add: hidden_from_viewCount)
  qed
qed

text \<open>
  C5. The view counter is a number of the language, and is counted exactly while it stays
  within \<open>2^53\<close>. For a stored post whose counter \<open>v\<close> has \<open>- 2^53 \<le> v\<close>: a fetch that succeeds,
  with \<open>v < 2^53\<close>, returns and stores the post with the counter \<open>v + 1\<close>, whoever the caller is;
  and over any sequence of \<open>n\<close> fetches of the post, one after the other, with \<open>v + n \<le> 2^53\<close>,
  the stored counter grows by exactly the number of fetches that succeeded, a fetch
  succeeding exactly when the post is not hidden from its caller.
\<close>

theorem get_posts_viewCount:
  assumes "findById db i = Some p"
      and "- 9007199254740992 \<le> viewCount p"
      and "viewCount p + int (length us) \<le> 9007199254740992"
  shows "(viewCount p < 9007199254740992 \<longrightarrow> (\<exists>p'. fst (get_post db u i) = Inr p') \<longrightarrow>
            fst (get_post db u i) = Inr (p\<lparr>viewCount := viewCount p + 1\<rparr>) \<and>
            findById (snd (get_post db u i)) i = Some (p\<lparr>viewCount := viewCount p + 1\<rparr>))
       \<and> length (fst (get_posts db us i)) = length us
       \<and> map (\<lambda>r. \<not> isl r) (fst (get_posts db us i)) = map (\<lambda>u. \<not> hidden_from p u) us
       \<and> findById (snd (get_posts db us i)) i =
           Some (p\<lparr>viewCount :=
                    viewCount p + int (length (filter (\<lambda>r. \<not> isl r) (fst (get_posts db us i))))\<rparr>)"
proof -
  let ?p = "p\<lparr>viewCount := viewCount p + 1\<rparr>"
  have pid: "post_id ?p = i" using findById_post_id [OF assms(1)] by simp
  have f: "findById (save ?p db) i = Some ?p" by (rule findById_save [OF assms(1) pid])
  have one: "viewCount p < 9007199254740992 \<longrightarrow> (\<exists>p'. fst (get_post db u i) = Inr p') \<longrightarrow>
            fst (get_post db u i) = Inr ?p \<and> findById (snd (get_post db u i)) i = Some ?p"
  proof (intro impI)
    assume "viewCount p < 9007199254740992"
    with assms(2) have "\<bar>viewCount p + 1\<bar> \<le> 9007199254740992" by simp
    then have x: "round_double (viewCount p + 1) = viewCount p + 1"
      by (rule round_double_exact)
    assume "\<exists>p'. fst (get_post db u i) = Inr p'"
    then show "fst (get_post db u i) = Inr ?p \<and> findById (snd (get_post db u i)) i = Some ?p"
      using assms(1) f by (simp add: get_post_step x split: if_splits)
  qed
  obtain rs db' where r: "get_posts db us i = (rs, db')" by (cases "get_posts db us i")
  from get_posts_trace [OF assms(1) r assms(2,3)] r one show ?thesis by simp
qed

theorem get_posts_viewCount_witness:
  "findById [quiet] ''p2'' = Some quiet \<and> - 9007199254740992 \<le> viewCount quiet \<and>
   viewCount quiet + int (length [None, Some admin, Some alice]) \<le> 9007199254740992 \<and>
   viewCount quiet < 9007199254740992 \<and>
   fst (get_post [quiet] None ''p2'') = Inr (quiet\<lparr>viewCount := viewCount quiet + 1\<rparr>) \<and>
   findById (snd (get_posts [quiet] [None, Some admin, Some alice] ''p2'')) ''p2'' =
     Some (quiet\<lparr>viewCount := viewCount quiet + 3\<rparr>) \<and>
   viewCount quiet = 5"
proof -
  have h: "findById [quiet] ''p2'' = Some quiet" by (simp add: findById_def quiet_def)
  have v: "viewCount quiet = 5" by (simp add: quiet_def)
  have lo: "- 9007199254740992 \<le> viewCount quiet" by (simp add: v)
  have hi: "viewCount quiet + int (length [None, Some admin, Some alice]) \<le> 9007199254740992"
    by (simp add: v)
  have lt: "viewCount quiet < 9007199254740992" by (simp add: v)
  have nh: "\<not> hidden_from quiet None" by (simp add: hidden_from_def quiet_def)
  note w = get_posts_viewCount [OF h lo hi, of None]
  have ok: "\<exists>p'. fst (get_post [quiet] None ''p2'') = Inr p'"
    by (simp add: get_post_step [OF h] nh)
  from w lt ok have one:
    "fst (get_post [quiet] None ''p2'') = Inr (quiet\<lparr>viewCount := viewCount quiet + 1\<rparr>)"
    by blast
  have e: "fst (get_posts [quiet] [None, Some admin, Some alice] ''p2'') =
     [Inr (quiet\<lparr>viewCount := 6\<rparr>), Inr (quiet\<lparr>viewCount := 7\<rparr>), Inr (quiet\<lparr>viewCount := 8\<rparr>)]"
    by (simp add: get_post_def findById_def hidden_from_def quiet_def save_def
        round_double_exact Let_def)
  have c: "int (length (filter (\<lambda>r. \<not> isl r)
      (fst (get_posts [quiet] [None, Some admin, Some alice] ''p2'')))) = 3"
    unfolding e by simp
  from w have "findById (snd (get_posts [quiet] [None, Some admin, Some alice] ''p2'')) ''p2'' =
     Some (quiet\<lparr>viewCount := viewCount quiet + int (length (filter (\<lambda>r. \<not> isl r)
       (fst (get_posts [quiet] [None, Some admin, Some alice] ''p2''))))\<rparr>)"
    by (elim conjE)
  then have seq: "findById (snd (get_posts [quiet] [None, Some admin, Some alice] ''p2'')) ''p2'' =
     Some (quiet\<lparr>viewCount := viewCount quiet + 3\<rparr>)"
    unfolding c .
  from h lo hi lt one seq v show ?thesis by (intro conjI)
qed

text \<open>
  At \<open>2^53\<close> the counter stops: a fetch of a published post whose counter is \<open>2^53\<close> succeeds
  and leaves the stored post as it was.
\<close>

theorem viewCount_stuck_counterexample:
  "viewCount maxed = 9007199254740992 \<and> findById [maxed] ''p6'' = Some maxed \<and>
   get_post [maxed] None ''p6'' = (Inr maxed, [maxed])"
proof -
  have v: "viewCount maxed = 9007199254740992" by (simp add: maxed_def)
  have h: "findById [maxed] ''p6'' = Some maxed" by (simp add: findById_def maxed_def)
  have nh: "\<not> hidden_from maxed None" by (simp add: hidden_from_def maxed_def)
  have u: "ulp 9007199254740993 = 2" by (subst ulp.simps) (simp add: ulp_small)
  have r: "round_double (viewCount maxed + 1) = 9007199254740992"
    unfolding v by (simp add: round_double_def u Let_def)
  have m: "maxed\<lparr>viewCount := 9007199254740992\<rparr> = maxed" by (simp add: maxed_def)
  have s: "save maxed [maxed] = [maxed]" by (simp add: save_def)
  have "get_post [maxed] None ''p6'' = (Inr maxed, [maxed])"
    unfolding get_post_step [OF h] r m s using nh by simp
  with v h show ?thesis by (intro conjI)
qed

section \<open>Ownership\<close>

text \<open>
  C8. On a stored post, a caller who is neither its author nor an admin gets the 401 refusal
  from \<^verbatim>\<open>PUT /:id\<close> and from \<^verbatim>\<open>DELETE /:id\<close>, and the store is as before. For the author
  and for an admin both go on: the delete removes the post, the update stores the post with
  the body applied (or fails in the schema's validators, leaving the store).
\<close>

theorem modify_requires_owner_or_admin:
  assumes "findById db i = Some p"
  shows "(author p \<noteq> user_id u \<and> role u \<noteq> ''admin'' \<longrightarrow>
            update_post db u i b = (Inl (Forbidden ''Not authorized to update this post''), db) \<and>
            delete_post db u i = (Inl (Forbidden ''Not authorized to delete this post''), db) \<and>
            status_code (Forbidden ''Not authorized to update this post'') = Some 401)
       \<and> (author p = user_id u \<or> role u = ''admin'' \<longrightarrow>
            delete_post db u i = (Inr (), findByIdAndDelete i db) \<and>
            findById (findByIdAndDelete i db) i = None \<and>
            update_post db u i b =
              (if runValidators b then (Inr (apply_update b p), save (apply_update b p) db)
               else (Inl Unhandled, db)))"
  using assms by (auto simp: update_post_def delete_post_def Let_def findById_delete)

theorem modify_requires_owner_or_admin_witness:
  "findById [draft1] ''p1'' = Some draft1 \<and>
   author draft1 \<noteq> user_id bob \<and> role bob \<noteq> ''admin'' \<and>
   update_post [draft1] bob ''p1'' retitle_and_reassign =
     (Inl (Forbidden ''Not authorized to update this post''), [draft1]) \<and>
   delete_post [draft1] bob ''p1'' =
     (Inl (Forbidden ''Not authorized to delete this post''), [draft1]) \<and>
   role admin = ''admin'' \<and>
   delete_post [draft1] admin ''p1'' = (Inr (), findByIdAndDelete ''p1'' [draft1]) \<and>
   findByIdAndDelete ''p1'' [draft1] = []"
proof -
  have h: "findById [draft1] ''p1'' = Some draft1" by (simp add: findById_def draft1_def)
  have a: "author draft1 \<noteq> user_id bob" by (simp add: draft1_def bob_def)
  have b: "role bob \<noteq> ''admin''" by (simp add: bob_def)
  have c: "role admin = ''admin''" by (simp add: admin_def)
  have d: "findByIdAndDelete ''p1'' [draft1] = []" by (simp add: findByIdAndDelete_def draft1_def)
  have
    "update_post [draft1] bob ''p1'' retitle_and_reassign =
       (Inl (Forbidden ''Not authorized to update this post''), [draft1]) \<and>
     delete_post [draft1] bob ''p1'' =
       (Inl (Forbidden ''Not authorized to delete this post''), [draft1])"
    using modify_requires_owner_or_admin [OF h, of bob retitle_and_reassign] a b by blast
  moreover
  have "delete_post [draft1] admin ''p1'' = (Inr (), findByIdAndDelete ''p1'' [draft1])"
    using modify_requires_owner_or_admin [OF h, of admin retitle_and_reassign] c by blast
  ultimately show ?thesis using h a b c d by blast
qed

section \<open>Comments\<close>

text \<open>
  C9. Deleting a comment of a stored post: when no comment of the post has the identifier,
  the answer is 404 and the store is as before. Otherwise, with \<open>c\<close> the first comment that
  has it, the delete succeeds exactly when the caller wrote \<open>c\<close>, or wrote the post, or is an
  admin. The store then holds the post with that one entry taken out of the comment list:
  the list was \<open>ys @ c # zs\<close> with no entry of \<open>ys\<close> having the identifier and is \<open>ys @ zs\<close>
  afterwards, one entry fewer; nothing else of the post and no other post has changed. Any
  other caller gets the 401 refusal with the store as before.
\<close>

theorem delete_comment_cases:
  assumes "findById db i = Some p"
  shows "(find (\<lambda>c. comment_id c = cid) (comments p) = None \<longrightarrow>
            delete_comment db u i cid = (Inl (NotFound ''Comment not found''), db))
       \<and> (\<forall>c. find (\<lambda>c. comment_id c = cid) (comments p) = Some c \<longrightarrow>
            (if comment_user c = user_id u \<or> author p = user_id u \<or> role u = ''admin''
             then delete_comment db u i cid =
                    (Inr (), save (p\<lparr>comments := remove1 c (comments p)\<rparr>) db) \<and>
                  Suc (length (remove1 c (comments p))) = length (comments p) \<and>
                  findById (snd (delete_comment db u i cid)) i =
                    Some (p\<lparr>comments := remove1 c (comments p)\<rparr>) \<and>
                  (\<forall>j. j \<noteq> i \<longrightarrow>
                     findById (snd (delete_comment db u i cid)) j = findById db j) \<and>
                  (\<exists>ys zs. comments p = ys @ c # zs \<and> (\<forall>y\<in>set ys. comment_id y \<noteq> cid) \<and>
                     remove1 c (comments p) = ys @ zs)
             else delete_comment db u i cid =
                    (Inl (Forbidden ''Not authorized to delete this comment''), db) \<and>
                  status_code (Forbidden ''Not authorized to delete this comment'') = Some 401))"
proof (intro conjI allI impI)
  assume "find (\<lambda>c. comment_id c = cid) (comments p) = None"
  with assms show "delete_comment db u i cid = (Inl (NotFound ''Comment not found''), db)"
    by (simp add: delete_comment_def)
next
  fix c
  assume f: "find (\<lambda>c. comment_id c = cid) (comments p) = Some c"
  from find_split [OF f] obtain ys zs where
    s: "comments p = ys @ c # zs" "comment_id c = cid" "\<forall>y\<in>set ys. comment_id y \<noteq> cid"
    by blast
  have ix: "findIndex (\<lambda>c. comment_id c = cid) (comments p) = int (length ys)"
    using s by (simp add: findIndex_first)
  have "\<forall>y\<in>set ys. y \<noteq> c" using s by auto
  then have r: "remove1 c (comments p) = ys @ zs" using s(1) by (simp add: remove1_first)
  have sp: "splice1 (findIndex (\<lambda>c. comment_id c = cid) (comments p)) (comments p) = ys @ zs"
    using ix s(1) splice1_at [of ys c zs] by simp
  let ?p' = "p\<lparr>comments := remove1 c (comments p)\<rparr>"
  have pid: "post_id ?p' = i" using findById_post_id [OF assms] by simp
  have after: "findById (save ?p' db) i = Some ?p'" by (rule findById_save [OF assms pid])
  have others: "\<forall>j. j \<noteq> i \<longrightarrow> findById (save ?p' db) j = findById db j"
    using pid by (simp add: findById_save_other)
  have shape: "\<exists>ys zs. comments p = ys @ c # zs \<and> (\<forall>y\<in>set ys. comment_id y \<noteq> cid) \<and>
                 remove1 c (comments p) = ys @ zs"
    using s(1,3) r by blast
  have len: "Suc (length (remove1 c (comments p))) = length (comments p)"
    using r s(1) by simp
  show "if comment_user c = user_id u \<or> author p = user_id u \<or> role u = ''admin''
        then delete_comment db u i cid = (Inr (), save ?p' db) \<and>
             Suc (length (remove1 c (comments p))) = length (comments p) \<and>
             findById (snd (delete_comment db u i cid)) i = Some ?p' \<and>
             (\<forall>j. j \<noteq> i \<longrightarrow> findById (snd (delete_comment db u i cid)) j = findById db j) \<and>
             (\<exists>ys zs. comments p = ys @ c # zs \<and> (\<forall>y\<in>set ys. comment_id y \<noteq> cid) \<and>
                remove1 c (comments p) = ys @ zs)
        else delete_comment db u i cid =
               (Inl (Forbidden ''Not authorized to delete this comment''), db) \<and>
             status_code (Forbidden ''Not authorized to delete this comment'') = Some 401"
  proof (cases "comment_user c = user_id u \<or> author p = user_id u \<or> role u = ''admin''")
    case True
    then have d: "delete_comment db u i cid = (Inr (), save ?p' db)"
      using assms f sp r by (auto simp: delete_comment_def Let_def)
    from True d len after others shape show ?thesis by simp
  next
    case False
    then have "delete_comment db u i cid =
                 (Inl (Forbidden ''Not authorized to delete this comment''), db)"
      using assms f by (simp add: delete_comment_def)
    with False show ?thesis by simp
  qed
qed

theorem delete_comment_cases_witness:
  "findById [thread, draft1] ''p4'' = Some thread \<and>
   find (\<lambda>c. comment_id c = ''c4'') (comments thread) = Some reply2 \<and>
   comment_user reply2 = user_id bob \<and> author thread \<noteq> user_id bob \<and> role bob \<noteq> ''admin'' \<and>
   delete_comment [thread, draft1] bob ''p4'' ''c4'' =
     (Inr (), [thread\<lparr>comments := [reply3, reply1]\<rparr>, draft1]) \<and>
   findById (snd (delete_comment [thread, draft1] bob ''p4'' ''c4'')) ''p4'' =
     Some (thread\<lparr>comments := [reply3, reply1]\<rparr>) \<and>
   findById (snd (delete_comment [thread, draft1] bob ''p4'' ''c4'')) ''p1'' = Some draft1 \<and>
   comment_user reply2 \<noteq> user_id carol \<and> author thread \<noteq> user_id carol \<and>
   role carol \<noteq> ''admin'' \<and>
   delete_comment [thread, draft1] carol ''p4'' ''c4'' =
     (Inl (Forbidden ''Not authorized to delete this comment''), [thread, draft1]) \<and>
   find (\<lambda>c. comment_id c = ''c9'') (comments thread) = None \<and>
   delete_comment [thread, draft1] bob ''p4'' ''c9'' =
     (Inl (NotFound ''Comment not found''), [thread, draft1])"
proof -
  have h: "findById [thread, draft1] ''p4'' = Some thread"
    by (simp add: findById_def thread_def)
  have h1: "findById [thread, draft1] ''p1'' = Some draft1"
    by (simp add: findById_def thread_def draft1_def)
  have f: "find (\<lambda>c. comment_id c = ''c4'') (comments thread) = Some reply2"
    by (simp add: thread_def reply1_def reply2_def reply3_def)
  have g: "find (\<lambda>c. comment_id c = ''c9'') (comments thread) = None"
    by (simp add: thread_def reply1_def reply2_def reply3_def)
  have a: "comment_user reply2 = user_id bob" by (simp add: reply2_def bob_def)
  have b: "author thread \<noteq> user_id bob" by (simp add: thread_def bob_def)
  have c: "role bob \<noteq> ''admin''" by (simp add: bob_def)
  have a': "comment_user reply2 \<noteq> user_id carol" by (simp add: reply2_def carol_def)
  have b': "author thread \<noteq> user_id carol" by (simp add: thread_def carol_def)
  have c': "role carol \<noteq> ''admin''" by (simp add: carol_def)
  have rm: "remove1 reply2 (comments thread) = [reply3, reply1]"
    by (simp add: thread_def reply1_def reply2_def reply3_def)
  have sv: "save (thread\<lparr>comments := [reply3, reply1]\<rparr>) [thread, draft1] =
              [thread\<lparr>comments := [reply3, reply1]\<rparr>, draft1]"
    by (simp add: save_def thread_def draft1_def)
  have yes: "comment_user reply2 = user_id bob \<or> author thread = user_id bob \<or>
             role bob = ''admin''"
    using a by simp
  have no: "\<not> (comment_user reply2 = user_id carol \<or> author thread = user_id carol \<or>
                role carol = ''admin'')"
    using a' b' c' by simp
  note w = delete_comment_cases [OF h, of "''c4''" bob, THEN conjunct2, rule_format, OF f]
  note ok = w [unfolded if_P [OF yes]]
  from ok have d1: "delete_comment [thread, draft1] bob ''p4'' ''c4'' =
       (Inr (), [thread\<lparr>comments := [reply3, reply1]\<rparr>, draft1])"
    unfolding rm sv by (elim conjE)
  from ok have d2: "findById (snd (delete_comment [thread, draft1] bob ''p4'' ''c4'')) ''p4'' =
       Some (thread\<lparr>comments := [reply3, reply1]\<rparr>)"
    unfolding rm by (elim conjE)
  from ok have "\<forall>j. j \<noteq> ''p4'' \<longrightarrow>
        findById (snd (delete_comment [thread, draft1] bob ''p4'' ''c4'')) j =
        findById [thread, draft1] j"
    by (elim conjE)
  then have "findById (snd (delete_comment [thread, draft1] bob ''p4'' ''c4'')) ''p1'' =
       findById [thread, draft1] ''p1''"
    by simp
  then have d3: "findById (snd (delete_comment [thread, draft1] bob ''p4'' ''c4'')) ''p1'' =
       Some draft1"
    unfolding h1 .
  note v = delete_comment_cases [OF h, of "''c4''" carol, THEN conjunct2, rule_format, OF f]
  from v [unfolded if_not_P [OF no]] have d4:
    "delete_comment [thread, draft1] carol ''p4'' ''c4'' =
       (Inl (Forbidden ''Not authorized to delete this comment''), [thread, draft1])"
    by (elim conjE)
  from delete_comment_cases [OF h, of "''c9''" bob] g have d5:
    "delete_comment [thread, draft1] bob ''p4'' ''c9'' =
       (Inl (NotFound ''Comment not found''), [thread, draft1])"
    by blast
  from h f a b c d1 d2 d3 a' b' c' d4 g d5 show ?thesis by (intro conjI)
qed

section \<open>Likes\<close>

lemma toggle_like_shape:
  assumes "findById db i = Some p"
  shows "\<exists>r ls. toggle_like db u i t = (Inr r, save (p\<lparr>likes := ls\<rparr>) db) \<and>
           findById (save (p\<lparr>likes := ls\<rparr>) db) i = Some (p\<lparr>likes := ls\<rparr>)"
proof -
  have pid: "post_id p = i" by (rule findById_post_id [OF assms])
  have f: "findById (save (p\<lparr>likes := ls\<rparr>) db) i = Some (p\<lparr>likes := ls\<rparr>)" for ls
    using findById_save [OF assms, of "p\<lparr>likes := ls\<rparr>"] pid by simp
  show ?thesis
  proof (cases "findIndex (\<lambda>l. like_user l = user_id u) (likes p) > -1")
    case True
    with assms have "toggle_like db u i t =
        (Inr \<lparr>liked = False,
              likeCount = length (splice1 (findIndex (\<lambda>l. like_user l = user_id u) (likes p)) (likes p))\<rparr>,
         save (p\<lparr>likes := splice1 (findIndex (\<lambda>l. like_user l = user_id u) (likes p)) (likes p)\<rparr>) db)"
      by (simp add: toggle_like_def Let_def)
    with f show ?thesis by blast
  next
    case False
    with assms have "toggle_like db u i t =
        (Inr \<lparr>liked = True, likeCount = Suc (length (likes p))\<rparr>,
         save (p\<lparr>likes := \<lparr>like_user = user_id u, like_createdAt = t\<rparr> # likes p\<rparr>) db)"
      by (simp add: toggle_like_def Let_def)
    with f show ?thesis by blast
  qed
qed

lemma toggle_like_pair:
  assumes "findById db i = Some p"
  shows "\<exists>r1 db1 r2 db2 p2.
           toggle_like db u i t1 = (Inr r1, db1) \<and> toggle_like db1 u i t2 = (Inr r2, db2) \<and>
           findById db2 i = Some p2 \<and> p2 = p\<lparr>likes := likes p2\<rparr> \<and>
           (user_id u \<notin> like_user ` set (likes p) \<longrightarrow>
              liked r1 \<and> \<not> liked r2 \<and> p2 = p \<and> likeCount r2 = length (likes p)) \<and>
           (length (filter (\<lambda>l. like_user l = user_id u) (likes p)) = 1 \<longrightarrow>
              \<not> liked r1 \<and> liked r2 \<and>
              like_user ` set (likes p2) = like_user ` set (likes p) \<and>
              length (likes p2) = length (likes p) \<and> likeCount r2 = length (likes p))"
proof -
  let ?P = "\<lambda>l. like_user l = user_id u"
  have pid: "post_id p = i" by (rule findById_post_id [OF assms])
  consider (none) "\<forall>l\<in>set (likes p). \<not> ?P l"
    | (one) "length (filter ?P (likes p)) = 1"
    | (more) "(\<exists>l\<in>set (likes p). ?P l) \<and> length (filter ?P (likes p)) \<noteq> 1"
    by blast
  then show ?thesis
  proof cases
    case none
    let ?new = "\<lparr>like_user = user_id u, like_createdAt = t1\<rparr>"
    let ?p1 = "p\<lparr>likes := ?new # likes p\<rparr>"
    from none have n: "findIndex ?P (likes p) = -1" by (simp add: findIndex_neg_iff)
    from none have c: "length (filter ?P (likes p)) \<noteq> 1" by (simp add: filter_empty_conv)
    have s1: "toggle_like db u i t1 =
                (Inr \<lparr>liked = True, likeCount = Suc (length (likes p))\<rparr>, save ?p1 db)"
      using assms n by (simp add: toggle_like_def Let_def)
    have f1: "findById (save ?p1 db) i = Some ?p1"
      using findById_save [OF assms, of ?p1] pid by simp
    have sp: "splice1 0 (?new # likes p) = likes p" by (simp add: splice1_def Let_def)
    have s2: "toggle_like (save ?p1 db) u i t2 =
                (Inr \<lparr>liked = False, likeCount = length (likes p)\<rparr>, save p (save ?p1 db))"
      using f1 sp by (simp add: toggle_like_def Let_def)
    have f2: "findById (save p (save ?p1 db)) i = Some p"
      using findById_save [OF f1, of p] pid by simp
    from s1 s2 f2 c show ?thesis by auto
  next
    case one
    let ?new = "\<lparr>like_user = user_id u, like_createdAt = t2\<rparr>"
    from one have "filter ?P (likes p) \<noteq> []" by auto
    then have "\<exists>l\<in>set (likes p). ?P l" by (simp add: filter_empty_conv)
    from split_first [of "likes p" ?P, OF this] obtain ys c zs where
      s: "likes p = ys @ c # zs" "like_user c = user_id u" "\<forall>y\<in>set ys. \<not> ?P y" by blast
    from one s have "length (filter ?P zs) = 0" by simp
    then have z: "\<forall>y\<in>set zs. \<not> ?P y" by (simp add: filter_empty_conv)
    have ix: "findIndex ?P (likes p) = int (length ys)"
      using s by (simp add: findIndex_first)
    have sp: "splice1 (findIndex ?P (likes p)) (likes p) = ys @ zs"
      using ix s(1) splice1_at [of ys c zs] by simp
    let ?p1 = "p\<lparr>likes := ys @ zs\<rparr>"
    let ?p2 = "p\<lparr>likes := ?new # ys @ zs\<rparr>"
    have s1: "toggle_like db u i t1 =
                (Inr \<lparr>liked = False, likeCount = length (ys @ zs)\<rparr>, save ?p1 db)"
      using assms ix sp by (simp add: toggle_like_def Let_def)
    have f1: "findById (save ?p1 db) i = Some ?p1"
      using findById_save [OF assms, of ?p1] pid by simp
    have n: "findIndex ?P (ys @ zs) = -1" using s(3) z by (auto simp: findIndex_neg_iff)
    have s2: "toggle_like (save ?p1 db) u i t2 =
                (Inr \<lparr>liked = True, likeCount = Suc (length (ys @ zs))\<rparr>, save ?p2 (save ?p1 db))"
      using f1 n by (simp add: toggle_like_def Let_def)
    have f2: "findById (save ?p2 (save ?p1 db)) i = Some ?p2"
      using findById_save [OF f1, of ?p2] pid by simp
    have m: "like_user ` set (likes ?p2) = like_user ` set (likes p)"
      using s(1,2) by auto
    have u: "user_id u \<in> like_user ` set (likes p)" using s(1,2) by force
    from s1 s2 f2 m u s(1) show ?thesis by auto
  next
    case more
    from toggle_like_shape [OF assms, of u t1] obtain r1 ls1 where
      a: "toggle_like db u i t1 = (Inr r1, save (p\<lparr>likes := ls1\<rparr>) db)"
         "findById (save (p\<lparr>likes := ls1\<rparr>) db) i = Some (p\<lparr>likes := ls1\<rparr>)"
      by blast
    from toggle_like_shape [OF a(2), of u t2] obtain r2 ls2 where
      b: "toggle_like (save (p\<lparr>likes := ls1\<rparr>) db) u i t2 =
            (Inr r2, save (p\<lparr>likes := ls1, likes := ls2\<rparr>) (save (p\<lparr>likes := ls1\<rparr>) db))"
         "findById (save (p\<lparr>likes := ls1, likes := ls2\<rparr>) (save (p\<lparr>likes := ls1\<rparr>) db)) i =
            Some (p\<lparr>likes := ls1, likes := ls2\<rparr>)"
      by blast
    have u: "user_id u \<in> like_user ` set (likes p)" using more by force
    from a b u more show ?thesis by auto
  qed
qed

text \<open>
  C6. Two like toggles by one user on a stored post whose like list holds at most one entry
  of that user, one after the other: both succeed, change nothing of the post but its like
  list, and the second answers the opposite of the first. When the user had not liked the
  post, the answers are \<^verbatim>\<open>liked: true\<close> then \<^verbatim>\<open>liked: false\<close> and the stored post is the one
  from before the pair. In either case the users in the like list are the same as before,
  its length is the same, and the second answer reports that length.
\<close>

theorem toggle_like_twice:
  assumes "findById db i = Some p"
      and "length (filter (\<lambda>l. like_user l = user_id u) (likes p)) \<le> 1"
  shows "\<exists>r1 db1 r2 db2 p2.
           toggle_like db u i t1 = (Inr r1, db1) \<and> toggle_like db1 u i t2 = (Inr r2, db2) \<and>
           findById db2 i = Some p2 \<and> p2 = p\<lparr>likes := likes p2\<rparr> \<and>
           liked r1 = (user_id u \<notin> like_user ` set (likes p)) \<and> liked r2 = (\<not> liked r1) \<and>
           (user_id u \<notin> like_user ` set (likes p) \<longrightarrow> p2 = p) \<and>
           like_user ` set (likes p2) = like_user ` set (likes p) \<and>
           length (likes p2) = length (likes p) \<and> likeCount r2 = length (likes p)"
proof -
  from toggle_like_pair [OF assms(1), of u t1 t2] obtain r1 db1 r2 db2 p2 where
    t: "toggle_like db u i t1 = (Inr r1, db1)" "toggle_like db1 u i t2 = (Inr r2, db2)"
       "findById db2 i = Some p2" "p2 = p\<lparr>likes := likes p2\<rparr>"
    and none: "user_id u \<notin> like_user ` set (likes p) \<longrightarrow>
                 liked r1 \<and> \<not> liked r2 \<and> p2 = p \<and> likeCount r2 = length (likes p)"
    and one: "length (filter (\<lambda>l. like_user l = user_id u) (likes p)) = 1 \<longrightarrow>
                \<not> liked r1 \<and> liked r2 \<and>
                like_user ` set (likes p2) = like_user ` set (likes p) \<and>
                length (likes p2) = length (likes p) \<and> likeCount r2 = length (likes p)"
    by (elim exE conjE)
  have rest: "liked r1 = (user_id u \<notin> like_user ` set (likes p)) \<and> liked r2 = (\<not> liked r1) \<and>
           (user_id u \<notin> like_user ` set (likes p) \<longrightarrow> p2 = p) \<and>
           like_user ` set (likes p2) = like_user ` set (likes p) \<and>
           length (likes p2) = length (likes p) \<and> likeCount r2 = length (likes p)"
  proof (cases "user_id u \<in> like_user ` set (likes p)")
    case False
    with none have "liked r1" "\<not> liked r2" "p2 = p" "likeCount r2 = length (likes p)"
      by simp_all
    with False show ?thesis by simp
  next
    case True
    then have "filter (\<lambda>l. like_user l = user_id u) (likes p) \<noteq> []"
      by (auto simp: filter_empty_conv)
    then have "0 < length (filter (\<lambda>l. like_user l = user_id u) (likes p))"
      by simp
    with assms(2) have "length (filter (\<lambda>l. like_user l = user_id u) (likes p)) = 1"
      by linarith
    with one have "\<not> liked r1" "liked r2"
      "like_user ` set (likes p2) = like_user ` set (likes p)"
      "length (likes p2) = length (likes p)" "likeCount r2 = length (likes p)"
      by simp_all
    with True show ?thesis by simp
  qed
  from rest have c: "liked r1 = (user_id u \<notin> like_user ` set (likes p))"
    "liked r2 = (\<not> liked r1)" "user_id u \<notin> like_user ` set (likes p) \<longrightarrow> p2 = p"
    "like_user ` set (likes p2) = like_user ` set (likes p)"
    "length (likes p2) = length (likes p)" "likeCount r2 = length (likes p)"
    by blast+
  show ?thesis by (intro exI conjI) (rule t c)+
qed

theorem toggle_like_twice_witness:
  "findById [quiet] ''p2'' = Some quiet \<and>
   length (filter (\<lambda>l. like_user l = user_id alice) (likes quiet)) \<le> 1 \<and>
   user_id alice \<notin> like_user ` set (likes quiet) \<and>
   toggle_like [quiet] alice ''p2'' 400 =
     (Inr \<lparr>liked = True, likeCount = 2\<rparr>,
      [quiet\<lparr>likes := \<lparr>like_user = ''u1'', like_createdAt = 400\<rparr> # likes quiet\<rparr>]) \<and>
   toggle_like [quiet\<lparr>likes := \<lparr>like_user = ''u1'', like_createdAt = 400\<rparr> # likes quiet\<rparr>]
     alice ''p2'' 500 = (Inr \<lparr>liked = False, likeCount = 1\<rparr>, [quiet]) \<and>
   length (filter (\<lambda>l. like_user l = user_id admin) (likes quiet)) \<le> 1 \<and>
   user_id admin \<in> like_user ` set (likes quiet) \<and>
   toggle_like [quiet] admin ''p2'' 400 =
     (Inr \<lparr>liked = False, likeCount = 0\<rparr>, [quiet\<lparr>likes := []\<rparr>]) \<and>
   toggle_like [quiet\<lparr>likes := []\<rparr>] admin ''p2'' 500 =
     (Inr \<lparr>liked = True, likeCount = 1\<rparr>,
      [quiet\<lparr>likes := [\<lparr>like_user = ''u9'', like_createdAt = 500\<rparr>]\<rparr>])"
proof -
  have h: "findById [quiet] ''p2'' = Some quiet" by (simp add: findById_def quiet_def)
  have a: "length (filter (\<lambda>l. like_user l = user_id alice) (likes quiet)) \<le> 1"
    by (simp add: quiet_def alice_def)
  have n: "user_id alice \<notin> like_user ` set (likes quiet)" by (simp add: quiet_def alice_def)
  have s1: "toggle_like [quiet] alice ''p2'' 400 =
     (Inr \<lparr>liked = True, likeCount = 2\<rparr>,
      [quiet\<lparr>likes := \<lparr>like_user = ''u1'', like_createdAt = 400\<rparr> # likes quiet\<rparr>])"
    by (simp add: toggle_like_def findById_def quiet_def alice_def save_def Let_def)
  from toggle_like_twice [OF h a, of 400 500] obtain r1 db1 r2 db2 where
    t: "toggle_like [quiet] alice ''p2'' 400 = (Inr r1, db1)"
       "toggle_like db1 alice ''p2'' 500 = (Inr r2, db2)"
       "liked r2 = (\<not> liked r1)" "likeCount r2 = length (likes quiet)"
    by (elim exE conjE)
  from t(1) s1 have r1: "r1 = \<lparr>liked = True, likeCount = 2\<rparr>"
    and d1: "db1 = [quiet\<lparr>likes := \<lparr>like_user = ''u1'', like_createdAt = 400\<rparr> # likes quiet\<rparr>]"
    by simp_all
  have "liked r2 = False" using t(3) r1 by simp
  moreover have "likeCount r2 = 1" using t(4) by (simp add: quiet_def)
  ultimately have r2: "r2 = \<lparr>liked = False, likeCount = 1\<rparr>" by (cases r2) simp
  have "snd (toggle_like [quiet\<lparr>likes := \<lparr>like_user = ''u1'', like_createdAt = 400\<rparr> # likes quiet\<rparr>]
       alice ''p2'' 500) = [quiet]"
    by (simp add: toggle_like_def findById_def quiet_def alice_def save_def splice1_def Let_def)
  with t(2) r2 d1 have s2:
    "toggle_like [quiet\<lparr>likes := \<lparr>like_user = ''u1'', like_createdAt = 400\<rparr> # likes quiet\<rparr>]
       alice ''p2'' 500 = (Inr \<lparr>liked = False, likeCount = 1\<rparr>, [quiet])"
    by simp
  have a2: "length (filter (\<lambda>l. like_user l = user_id admin) (likes quiet)) \<le> 1"
    by (simp add: quiet_def admin_def)
  have m: "user_id admin \<in> like_user ` set (likes quiet)" by (simp add: quiet_def admin_def)
  have s3: "toggle_like [quiet] admin ''p2'' 400 =
     (Inr \<lparr>liked = False, likeCount = 0\<rparr>, [quiet\<lparr>likes := []\<rparr>])"
    by (simp add: toggle_like_def findById_def quiet_def admin_def save_def splice1_def Let_def)
  from toggle_like_twice [OF h a2, of 400 500] obtain q1 e1 q2 e2 where
    t': "toggle_like [quiet] admin ''p2'' 400 = (Inr q1, e1)"
        "toggle_like e1 admin ''p2'' 500 = (Inr q2, e2)"
        "liked q2 = (\<not> liked q1)" "likeCount q2 = length (likes quiet)"
    by (elim exE conjE)
  from t'(1) s3 have q1: "q1 = \<lparr>liked = False, likeCount = 0\<rparr>"
    and e1: "e1 = [quiet\<lparr>likes := []\<rparr>]"
    by simp_all
  have "liked q2 = True" using t'(3) q1 by simp
  moreover have "likeCount q2 = 1" using t'(4) by (simp add: quiet_def)
  ultimately have q2: "q2 = \<lparr>liked = True, likeCount = 1\<rparr>" by (cases q2) simp
  have "snd (toggle_like [quiet\<lparr>likes := []\<rparr>] admin ''p2'' 500) =
          [quiet\<lparr>likes := [\<lparr>like_user = ''u9'', like_createdAt = 500\<rparr>]\<rparr>]"
    by (simp add: toggle_like_def findById_def quiet_def admin_def save_def Let_def)
  with t'(2) q2 e1 have s4:
    "toggle_like [quiet\<lparr>likes := []\<rparr>] admin ''p2'' 500 =
       (Inr \<lparr>liked = True, likeCount = 1\<rparr>,
        [quiet\<lparr>likes := [\<lparr>like_user = ''u9'', like_createdAt = 500\<rparr>]\<rparr>])"
    by simp
  from h a n s1 s2 a2 m s3 s4 show ?thesis by (intro conjI)
qed

text \<open>
  A like list with two entries of one user loses both to the pair. Such a post is what the
  update of a draft with a body naming the user twice in \<^verbatim>\<open>likes\<close> stores; both toggles by
  that user answer \<^verbatim>\<open>liked: false\<close> and the list goes from two entries to none.
\<close>

theorem toggle_twice_on_duplicates_counterexample:
  "snd (update_post [draft1] alice ''p1'' stuffed_likes) = [doubled] \<and>
   findById [doubled] ''p1'' = Some doubled \<and> length (likes doubled) = 2 \<and>
   toggle_like [doubled] bob ''p1'' 400 =
     (Inr \<lparr>liked = False, likeCount = 1\<rparr>,
      [doubled\<lparr>likes := [\<lparr>like_user = ''u2'', like_createdAt = 2\<rparr>]\<rparr>]) \<and>
   toggle_like [doubled\<lparr>likes := [\<lparr>like_user = ''u2'', like_createdAt = 2\<rparr>]\<rparr>] bob ''p1'' 500 =
     (Inr \<lparr>liked = False, likeCount = 0\<rparr>, [doubled\<lparr>likes := []\<rparr>])"
proof -
  have a: "snd (update_post [draft1] alice ''p1'' stuffed_likes) = [doubled]"
    by (simp add: draft1_def doubled_def alice_def stuffed_likes_def update_post_def
        findById_def runValidators_def status_enum_def apply_update_def or_else_def save_def
        Let_def)
  have b: "findById [doubled] ''p1'' = Some doubled" by (simp add: findById_def doubled_def)
  have c: "length (likes doubled) = 2" by (simp add: doubled_def)
  have d: "toggle_like [doubled] bob ''p1'' 400 =
     (Inr \<lparr>liked = False, likeCount = 1\<rparr>,
      [doubled\<lparr>likes := [\<lparr>like_user = ''u2'', like_createdAt = 2\<rparr>]\<rparr>])"
    by (simp add: toggle_like_def findById_def doubled_def bob_def save_def splice1_def Let_def)
  have e: "toggle_like [doubled\<lparr>likes := [\<lparr>like_user = ''u2'', like_createdAt = 2\<rparr>]\<rparr>]
             bob ''p1'' 500 =
     (Inr \<lparr>liked = False, likeCount = 0\<rparr>, [doubled\<lparr>likes := []\<rparr>])"
    by (simp add: toggle_like_def findById_def doubled_def bob_def save_def splice1_def Let_def)
  from a b c d e show ?thesis by (intro conjI)
qed

section \<open>What an update body can set\<close>

lemma update_post_keeps_author:
  assumes "b_author b = None" and "update_post db u i b = (Inr p', db')"
  shows "\<exists>p. findById db i = Some p \<and> author p' = author p"
  using assms
  by (auto simp: update_post_def apply_update_def or_else_def Let_def
      split: option.splits if_splits)

text \<open>
  C1. The author of a post is the same after an update as before. The handler hands the whole
  body to the update, so a body with an \<^verbatim>\<open>author\<close> field sets the author: here the owner of a
  post sends a body naming another user, and the stored post then belongs to that user.
\<close>

theorem update_reassigns_author:
  "findById [draft1] ''p1'' = Some draft1 \<and> author draft1 = ''u1'' \<and> user_id alice = ''u1'' \<and>
   runValidators retitle_and_reassign \<and>
   update_post [draft1] alice ''p1'' retitle_and_reassign =
     (Inr (draft1\<lparr>title := ''A2'', author := ''u2''\<rparr>),
      [draft1\<lparr>title := ''A2'', author := ''u2''\<rparr>]) \<and>
   author (draft1\<lparr>title := ''A2'', author := ''u2''\<rparr>) \<noteq> author draft1"
  by (simp add: draft1_def alice_def retitle_and_reassign_def update_post_def
      findById_def runValidators_def apply_update_def or_else_def save_def Let_def)

subsection \<open>The like invariant under the operations\<close>

lemma toggle_like_inv:
  assumes "list_all one_like_per_user db"
  shows "list_all one_like_per_user (snd (toggle_like db u i now))"
proof (cases "findById db i")
  case None
  with assms show ?thesis by (simp add: toggle_like_def)
next
  case (Some p)
  have q: "distinct (map like_user (likes p))"
    using list_all_findById [OF assms Some] by (simp add: one_like_per_user_def)
  let ?P = "\<lambda>l. like_user l = user_id u"
  show ?thesis
  proof (cases "findIndex ?P (likes p) > -1")
    case True
    have "one_like_per_user (p\<lparr>likes := splice1 (findIndex ?P (likes p)) (likes p)\<rparr>)"
      using q by (simp add: one_like_per_user_def distinct_splice1)
    with True Some assms show ?thesis by (simp add: toggle_like_def Let_def list_all_save)
  next
    case False
    then have "findIndex ?P (likes p) = -1" using findIndex_ge [of ?P "likes p"] by simp
    then have "\<forall>l\<in>set (likes p). like_user l \<noteq> user_id u" by (simp add: findIndex_neg_iff)
    then have
      "one_like_per_user (p\<lparr>likes := \<lparr>like_user = user_id u, like_createdAt = now\<rparr> # likes p\<rparr>)"
      using q by (auto simp: one_like_per_user_def)
    with False Some assms show ?thesis by (simp add: toggle_like_def Let_def list_all_save)
  qed
qed

lemma comment_ops_inv:
  assumes "list_all one_like_per_user db"
  shows "list_all one_like_per_user (snd (add_comment db u i msg nid now))"
    and "list_all one_like_per_user (snd (delete_comment db u i cid))"
proof -
  show "list_all one_like_per_user (snd (add_comment db u i msg nid now))"
  proof (cases "findById db i")
    case None
    with assms show ?thesis by (simp add: add_comment_def)
  next
    case (Some p)
    have "one_like_per_user p" by (rule list_all_findById [OF assms Some])
    then have "one_like_per_user (p\<lparr>comments := cs\<rparr>)" for cs
      by (simp add: one_like_per_user_def)
    with Some assms show ?thesis by (simp add: add_comment_def Let_def list_all_save)
  qed
  show "list_all one_like_per_user (snd (delete_comment db u i cid))"
  proof (cases "findById db i")
    case None
    with assms show ?thesis by (simp add: delete_comment_def)
  next
    case (Some p)
    have "one_like_per_user p" by (rule list_all_findById [OF assms Some])
    then have "one_like_per_user (p\<lparr>comments := cs\<rparr>)" for cs
      by (simp add: one_like_per_user_def)
    with Some assms show ?thesis
      by (simp add: delete_comment_def Let_def list_all_save split: option.splits)
  qed
qed

lemma view_delete_inv:
  assumes "list_all one_like_per_user db"
  shows "list_all one_like_per_user (snd (get_post db v i))"
    and "list_all one_like_per_user (snd (delete_post db u i))"
proof -
  show "list_all one_like_per_user (snd (get_post db v i))"
  proof (cases "findById db i")
    case None
    with assms show ?thesis by (simp add: get_post_def)
  next
    case (Some p)
    have "one_like_per_user p" by (rule list_all_findById [OF assms Some])
    then have "one_like_per_user (p\<lparr>viewCount := n\<rparr>)" for n
      by (simp add: one_like_per_user_def)
    with Some assms show ?thesis by (simp add: get_post_def Let_def list_all_save)
  qed
  show "list_all one_like_per_user (snd (delete_post db u i))"
    using assms
    by (cases "findById db i") (simp_all add: delete_post_def findByIdAndDelete_def list_all_iff)
qed

lemma apply_update_inv:
  "one_like_per_user p \<Longrightarrow>
   (case b_likes b of None \<Rightarrow> True | Some ls \<Rightarrow> distinct (map like_user ls)) \<Longrightarrow>
   one_like_per_user (apply_update b p)"
  by (simp add: one_like_per_user_def apply_update_def or_else_def split: option.splits)

lemma update_create_inv:
  assumes "list_all one_like_per_user db"
      and "case b_likes b of None \<Rightarrow> True | Some ls \<Rightarrow> distinct (map like_user ls)"
  shows "list_all one_like_per_user (snd (update_post db u i b))"
    and "list_all one_like_per_user (snd (create_post d db u b nid now))"
proof -
  show "list_all one_like_per_user (snd (update_post db u i b))"
  proof (cases "findById db i")
    case None
    with assms show ?thesis by (simp add: update_post_def)
  next
    case (Some p)
    have "one_like_per_user p" by (rule list_all_findById [OF assms(1) Some])
    then have "one_like_per_user (apply_update b p)" using assms(2) by (rule apply_update_inv)
    with Some assms(1) show ?thesis by (simp add: update_post_def Let_def list_all_save)
  qed
  show "list_all one_like_per_user (snd (create_post d db u b nid now))"
    using assms
    by (simp add: create_post_def Let_def one_like_per_user_def or_else_def split: option.splits)
qed

lemma one_like_per_user_kept:
  assumes "list_all one_like_per_user db"
  shows "list_all one_like_per_user (snd (toggle_like db u i now)) \<and>
         list_all one_like_per_user (snd (add_comment db u i msg nid now)) \<and>
         list_all one_like_per_user (snd (delete_comment db u i cid)) \<and>
         list_all one_like_per_user (snd (get_post db v i)) \<and>
         list_all one_like_per_user (snd (delete_post db u i)) \<and>
         ((case b_likes b of None \<Rightarrow> True | Some ls \<Rightarrow> distinct (map like_user ls)) \<longrightarrow>
            list_all one_like_per_user (snd (update_post db u i b)) \<and>
            list_all one_like_per_user (snd (create_post d db u b nid now)))"
proof (intro conjI impI)
  show "list_all one_like_per_user (snd (toggle_like db u i now))"
    by (rule toggle_like_inv [OF assms])
  show "list_all one_like_per_user (snd (add_comment db u i msg nid now))"
    by (rule comment_ops_inv(1) [OF assms])
  show "list_all one_like_per_user (snd (delete_comment db u i cid))"
    by (rule comment_ops_inv(2) [OF assms])
  show "list_all one_like_per_user (snd (get_post db v i))"
    by (rule view_delete_inv(1) [OF assms])
  show "list_all one_like_per_user (snd (delete_post db u i))"
    by (rule view_delete_inv(2) [OF assms])
next
  assume c: "case b_likes b of None \<Rightarrow> True | Some ls \<Rightarrow> distinct (map like_user ls)"
  show "list_all one_like_per_user (snd (update_post db u i b))"
    by (rule update_create_inv(1) [OF assms c])
  show "list_all one_like_per_user (snd (create_post d db u b nid now))"
    by (rule update_create_inv(2) [OF assms c])
qed

text \<open>
  C7. Every post holds at most one like of a user, and every operation on a post keeps it
  so. The toggle, the comment operations, the fetch and the delete do (the lemma above), and
  so do an update and a create whose body has no duplicate in its \<^verbatim>\<open>likes\<close>. The body is
  stored as it comes, though: an update by the owner whose \<^verbatim>\<open>likes\<close> names one user twice
  leaves the post with two likes of that user.
\<close>

theorem update_stores_duplicate_likes:
  "list_all one_like_per_user [draft1] \<and> runValidators stuffed_likes \<and>
   fst (update_post [draft1] alice ''p1'' stuffed_likes) =
     Inr (draft1\<lparr>likes := [\<lparr>like_user = ''u2'', like_createdAt = 1\<rparr>,
                             \<lparr>like_user = ''u2'', like_createdAt = 2\<rparr>]\<rparr>) \<and>
   \<not> list_all one_like_per_user (snd (update_post [draft1] alice ''p1'' stuffed_likes))"
  by (simp add: one_like_per_user_def draft1_def alice_def stuffed_likes_def update_post_def
      findById_def runValidators_def apply_update_def or_else_def save_def Let_def)

text \<open>A created post takes the likes of its body in the same way.\<close>

lemma create_stores_duplicate_likes:
  "\<not> list_all one_like_per_user (snd (create_post ''draft'' [] alice stuffed_likes ''p5'' 500))"
  by (simp add: one_like_per_user_def alice_def stuffed_likes_def create_post_def
      runValidators_def or_else_def Let_def)

section \<open>Listings: pages and order\<close>

lemma length_sort_posts: "length (sort_posts sb ps) = length ps"
  by (cases sb) (auto simp: sort_posts_def directed_def split: sort_field.splits)

lemma paginate_valid:
  assumes "1 \<le> page_of q" and "1 \<le> limit_of q"
  shows "\<exists>r. paginate q found = Inr r \<and>
           pg_posts r = take (nat (limit_of q)) (drop (nat (startIndex q)) found) \<and>
           pg_count r = length (pg_posts r) \<and> pg_total r = length found \<and>
           pg_next r = (if startIndex q + limit_of q < int (length found)
                        then Some (page_of q + 1, limit_of q) else None) \<and>
           pg_prev r = (if 0 < startIndex q then Some (page_of q - 1, limit_of q) else None)"
proof -
  have "0 \<le> startIndex q" using assms by (simp add: startIndex_def)
  then show ?thesis using assms(2)
    by (simp add: paginate_def limit_skip_def Let_def)
qed

lemma paginate_window:
  assumes "paginate q found = Inr r"
  shows "\<exists>n k. pg_posts r = take n (drop k found)"
proof (cases "limit_of q * 1 = 0")
  case True
  with assms have "pg_posts r = take (length found) (drop (nat (startIndex q)) found)"
    by (auto simp: paginate_def limit_skip_def Let_def split: if_splits)
  then show ?thesis by blast
next
  case False
  with assms have "pg_posts r = take (nat \<bar>limit_of q\<bar>) (drop (nat (startIndex q)) found)"
    by (auto simp: paginate_def limit_skip_def Let_def split: if_splits)
  then show ?thesis by blast
qed

lemma paginate_sorted:
  assumes "paginate q found = Inr r" and "sorted_wrt R found"
  shows "sorted_wrt R (pg_posts r)"
proof -
  from paginate_window [OF assms(1)] obtain n k where "pg_posts r = take n (drop k found)"
    by blast
  with assms(2) show ?thesis by (simp add: sorted_wrt_take sorted_wrt_drop)
qed

lemma paginate_subset:
  assumes "paginate q found = Inr r"
  shows "set (pg_posts r) \<subseteq> set found"
proof -
  from paginate_window [OF assms(1)] obtain n k where "pg_posts r = take n (drop k found)"
    by blast
  then show ?thesis using set_take_subset [of n "drop k found"] set_drop_subset [of k found]
    by auto
qed

lemma sorted_desc_rev_sort_key: "sorted_wrt (\<lambda>a b. f b \<le> f a) (rev (sort_key f xs))"
proof -
  have "sorted (map f (sort_key f xs))" by (rule sorted_sort_key)
  then have "sorted_wrt (\<lambda>a b. f a \<le> f b) (sort_key f xs)" by (simp add: sorted_map)
  then show ?thesis by (simp add: sorted_wrt_rev)
qed

lemma sorted_asc_sort_key: "sorted_wrt (\<lambda>a b. f a \<le> f b) (sort_key f xs)"
  using sorted_sort_key [of f xs] by (simp add: sorted_map)

lemma second_of_one_numbers:
  "page_of second_of_one = 2 \<and> limit_of second_of_one = 1 \<and> startIndex second_of_one = 1"
  by (simp add: second_of_one_def page_of_def limit_of_def startIndex_def parseInt10_def
      or_default_def is_space_def is_digit_def digit_val_def round_double_exact Let_def)

lemma third_page_numbers:
  "page_of third_page = 3 \<and> limit_of third_page = 10 \<and> startIndex third_page = 20"
  by (simp add: third_page_def page_of_def limit_of_def startIndex_def parseInt10_def
      or_default_def is_space_def is_digit_def digit_val_def round_double_exact Let_def)

lemma published_filter:
  "filter (matches rx (build_query second_of_one)) [quiet, loved, draft1] = [quiet, loved] \<and>
   filter (matches rx (build_query third_page)) [quiet, loved, draft1] = [quiet, loved]"
  by (simp add: matches_def build_query_def truthy_def second_of_one_def third_page_def
      quiet_def loved_def draft1_def)

text \<open>
  C3. A listing whose page and limit are at least 1 answers with a page, and on it:
  the start index is \<open>(page - 1) * limit\<close>; the total counts the posts the filter matches; the
  page holds \<open>min limit (total - start)\<close> posts when the start is within the total and none
  when it is beyond, so \<open>start + count \<le> total\<close> holds whenever \<open>start \<le> total\<close>; the previous
  cursor is there exactly when the page is beyond the first, which is when the start is
  positive; the next cursor is there exactly when \<open>start + limit < total\<close>.
\<close>

theorem list_posts_pagination:
  assumes "1 \<le> page_of q" and "1 \<le> limit_of q"
  shows "\<exists>r. list_posts rx db q = Inr r \<and>
           startIndex q = (page_of q - 1) * limit_of q \<and> 0 \<le> startIndex q \<and>
           pg_total r = length (filter (matches rx (build_query q)) db) \<and>
           pg_count r = length (pg_posts r) \<and>
           int (pg_count r) =
             (if startIndex q \<le> int (pg_total r)
              then min (limit_of q) (int (pg_total r) - startIndex q) else 0) \<and>
           (startIndex q \<le> int (pg_total r) \<longrightarrow>
              startIndex q + int (pg_count r) \<le> int (pg_total r)) \<and>
           ((pg_prev r \<noteq> None) = (1 < page_of q)) \<and>
           ((pg_prev r \<noteq> None) = (0 < startIndex q)) \<and>
           ((pg_next r \<noteq> None) = (startIndex q + limit_of q < int (pg_total r)))"
proof -
  let ?found = "sort_posts (sortBy (q_sortBy q)) (filter (matches rx (build_query q)) db)"
  from paginate_valid [OF assms, of ?found] obtain r where
    r: "paginate q ?found = Inr r"
       "pg_posts r = take (nat (limit_of q)) (drop (nat (startIndex q)) ?found)"
       "pg_count r = length (pg_posts r)" "pg_total r = length ?found"
       "pg_next r = (if startIndex q + limit_of q < int (length ?found)
                     then Some (page_of q + 1, limit_of q) else None)"
       "pg_prev r = (if 0 < startIndex q then Some (page_of q - 1, limit_of q) else None)"
    by blast
  have s0: "0 \<le> startIndex q" using assms by (simp add: startIndex_def)
  have p: "(0 < startIndex q) = (1 < page_of q)"
    using assms by (simp add: startIndex_def zero_less_mult_iff)
  have t: "pg_total r = length (filter (matches rx (build_query q)) db)"
    using r(4) by (simp add: length_sort_posts)
  have c: "int (pg_count r) =
             (if startIndex q \<le> int (pg_total r)
              then min (limit_of q) (int (pg_total r) - startIndex q) else 0)"
    using r(2,3,4) s0 assms(2) by (auto simp: min_def)
  have "list_posts rx db q = Inr r" using r(1) by (simp add: list_posts_def)
  moreover have "startIndex q = (page_of q - 1) * limit_of q" by (simp add: startIndex_def)
  moreover have "startIndex q \<le> int (pg_total r) \<longrightarrow>
                 startIndex q + int (pg_count r) \<le> int (pg_total r)"
    using c by (auto simp: min_def)
  moreover have "(pg_prev r \<noteq> None) = (0 < startIndex q)" using r(6) by simp
  moreover have "(pg_next r \<noteq> None) = (startIndex q + limit_of q < int (pg_total r))"
    using r(4,5) by simp
  ultimately show ?thesis using s0 t r(3) c p by blast
qed

theorem list_posts_pagination_witness:
  "1 \<le> page_of second_of_one \<and> 1 \<le> limit_of second_of_one \<and>
   list_posts literal_rx [quiet, loved, draft1] second_of_one =
     Inr \<lparr>pg_count = 1, pg_total = 2, pg_next = None, pg_prev = Some (1, 1), pg_posts = [quiet]\<rparr> \<and>
   startIndex second_of_one = 1"
proof -
  have a: "1 \<le> page_of second_of_one" and b: "1 \<le> limit_of second_of_one"
    by (simp_all add: second_of_one_numbers)
  have s: "sort_posts (sortBy (q_sortBy second_of_one)) [quiet, loved] = [loved, quiet]"
    by (simp add: sortBy_def truthy_def second_of_one_def sort_posts_def directed_def
        quiet_def loved_def)
  have e: "list_posts literal_rx [quiet, loved, draft1] second_of_one =
     Inr \<lparr>pg_count = 1, pg_total = 2, pg_next = None, pg_prev = Some (1, 1), pg_posts = [quiet]\<rparr>"
    unfolding list_posts_def published_filter [THEN conjunct1] s
    by (simp add: paginate_def second_of_one_numbers limit_skip_def Let_def)
  from list_posts_pagination [OF a b, of literal_rx "[quiet, loved, draft1]"] obtain r where
    "list_posts literal_rx [quiet, loved, draft1] second_of_one = Inr r"
    "startIndex second_of_one = (page_of second_of_one - 1) * limit_of second_of_one"
    by (elim exE conjE)
  then have "startIndex second_of_one = 1" by (simp add: second_of_one_numbers)
  with a b e show ?thesis by (intro conjI)
qed

text \<open>
  A page that starts beyond the last match is empty, and its start alone exceeds the total:
  page 3 of two published posts, ten to a page.
\<close>

theorem page_past_end_counterexample:
  "1 \<le> page_of third_page \<and> 1 \<le> limit_of third_page \<and>
   list_posts literal_rx [quiet, loved, draft1] third_page =
     Inr \<lparr>pg_count = 0, pg_total = 2, pg_next = None, pg_prev = Some (2, 10), pg_posts = []\<rparr> \<and>
   \<not> (startIndex third_page + int (pg_count \<lparr>pg_count = 0, pg_total = 2, pg_next = None,
          pg_prev = Some (2, 10), pg_posts = []\<rparr>)
        \<le> int (pg_total \<lparr>pg_count = 0, pg_total = 2, pg_next = None,
          pg_prev = Some (2, 10), pg_posts = []\<rparr>))"
proof -
  have s: "sort_posts (sortBy (q_sortBy third_page)) [quiet, loved] = [loved, quiet]"
    by (simp add: sortBy_def truthy_def third_page_def sort_posts_def directed_def
        quiet_def loved_def)
  have e: "list_posts literal_rx [quiet, loved, draft1] third_page =
     Inr \<lparr>pg_count = 0, pg_total = 2, pg_next = None, pg_prev = Some (2, 10), pg_posts = []\<rparr>"
    unfolding list_posts_def published_filter [THEN conjunct2] s
    by (simp add: paginate_def third_page_numbers limit_skip_def Let_def)
  show ?thesis using e by (simp add: third_page_numbers)
qed

lemma sortBy_cases:
  "sortBy v = (if v = Some ''oldest'' then (CreatedAt, 1)
               else if v = Some ''popular'' then (ViewCount, -1)
               else if v = Some ''mostLiked'' then (Likes, -1)
               else if v = Some ''title'' then (Title, 1)
               else (CreatedAt, -1))"
  by (cases v) (auto simp: sortBy_def truthy_def or_else_def Let_def)

text \<open>
  The order of a page for every \<^verbatim>\<open>sortBy\<close> but \<^verbatim>\<open>mostLiked\<close>: oldest first, most viewed
  first, by title, and newest first for any other value and for none.
\<close>

lemma list_posts_order:
  assumes "list_posts rx db q = Inr r"
  shows "(q_sortBy q = Some ''oldest'' \<longrightarrow>
            sorted_wrt (\<lambda>a b. createdAt a \<le> createdAt b) (pg_posts r)) \<and>
         (q_sortBy q = Some ''popular'' \<longrightarrow>
            sorted_wrt (\<lambda>a b. viewCount b \<le> viewCount a) (pg_posts r)) \<and>
         (q_sortBy q = Some ''title'' \<longrightarrow>
            sorted_wrt (\<lambda>a b. title a \<le> title b) (pg_posts r)) \<and>
         (q_sortBy q \<notin> {Some ''oldest'', Some ''popular'', Some ''mostLiked'', Some ''title''} \<longrightarrow>
            sorted_wrt (\<lambda>a b. createdAt b \<le> createdAt a) (pg_posts r))"
proof -
  let ?m = "filter (matches rx (build_query q)) db"
  have p: "paginate q (sort_posts (sortBy (q_sortBy q)) ?m) = Inr r"
    using assms by (simp add: list_posts_def)
  have a: "sorted_wrt R (sort_posts (sortBy (q_sortBy q)) ?m) \<Longrightarrow> sorted_wrt R (pg_posts r)"
    for R by (rule paginate_sorted [OF p])
  show ?thesis
  proof (intro conjI impI)
    assume "q_sortBy q = Some ''oldest''"
    then have "sort_posts (sortBy (q_sortBy q)) ?m = sort_key createdAt ?m"
      by (simp add: sortBy_cases sort_posts_def directed_def)
    then show "sorted_wrt (\<lambda>a b. createdAt a \<le> createdAt b) (pg_posts r)"
      using a sorted_asc_sort_key [of createdAt ?m] by simp
  next
    assume "q_sortBy q = Some ''popular''"
    then have "sort_posts (sortBy (q_sortBy q)) ?m = rev (sort_key viewCount ?m)"
      by (simp add: sortBy_cases sort_posts_def directed_def)
    then show "sorted_wrt (\<lambda>a b. viewCount b \<le> viewCount a) (pg_posts r)"
      using a sorted_desc_rev_sort_key [of viewCount ?m] by simp
  next
    assume "q_sortBy q = Some ''title''"
    then have "sort_posts (sortBy (q_sortBy q)) ?m = sort_key title ?m"
      by (simp add: sortBy_cases sort_posts_def directed_def)
    then show "sorted_wrt (\<lambda>a b. title a \<le> title b) (pg_posts r)"
      using a sorted_asc_sort_key [of title ?m] by simp
  next
    assume "q_sortBy q \<notin> {Some ''oldest'', Some ''popular'', Some ''mostLiked'', Some ''title''}"
    then have "sort_posts (sortBy (q_sortBy q)) ?m = rev (sort_key createdAt ?m)"
      by (simp add: sortBy_cases sort_posts_def directed_def)
    then show "sorted_wrt (\<lambda>a b. createdAt b \<le> createdAt a) (pg_posts r)"
      using a sorted_desc_rev_sort_key [of createdAt ?m] by simp
  qed
qed

text \<open>
  C2. With \<^verbatim>\<open>sortBy=mostLiked\<close> the page is in the order of the number of likes, most first.
  The handler sorts on the field \<^verbatim>\<open>likes\<close> itself, which the store orders by the entries of
  the array, not by how many there are: of two published posts, the one with a single like
  comes before the one with two.
\<close>

theorem mostLiked_orders_by_like_entries:
  "sortBy (q_sortBy most_liked) = (Likes, -1) \<and>
   list_posts literal_rx [loved, quiet] most_liked =
     Inr \<lparr>pg_count = 2, pg_total = 2, pg_next = None, pg_prev = None, pg_posts = [quiet, loved]\<rparr> \<and>
   map (\<lambda>p. length (likes p)) [quiet, loved] = [1, 2]"
proof -
  have k: "sortBy (q_sortBy most_liked) = (Likes, -1)"
    by (simp add: sortBy_cases most_liked_def)
  have f: "filter (matches literal_rx (build_query most_liked)) [loved, quiet] = [loved, quiet]"
    by (simp add: matches_def build_query_def truthy_def most_liked_def quiet_def loved_def)
  have s: "sort_posts (Likes, -1) [loved, quiet] = [quiet, loved]"
    by (simp add: sort_posts_def like_key_def quiet_def loved_def)
  have n: "page_of most_liked = 1 \<and> limit_of most_liked = 10 \<and> startIndex most_liked = 0"
    by (simp add: most_liked_def page_of_def limit_of_def startIndex_def parseInt10_def
        or_default_def)
  have e: "list_posts literal_rx [loved, quiet] most_liked =
     Inr \<lparr>pg_count = 2, pg_total = 2, pg_next = None, pg_prev = None, pg_posts = [quiet, loved]\<rparr>"
    unfolding list_posts_def f k s by (simp add: paginate_def n limit_skip_def Let_def)
  have c: "map (\<lambda>p. length (likes p)) [quiet, loved] = [1, 2]"
    by (simp add: quiet_def loved_def)
  from k e c show ?thesis by (intro conjI)
qed

section \<open>The caller's own posts\<close>

lemma my_filter:
  "matches rx (build_my_query u q) p =
     (author p = user_id u \<and> (truthy (q_status q) \<longrightarrow> q_status q = Some (status p)))"
  by (cases "q_status q") (auto simp: matches_def build_my_query_def truthy_def)

text \<open>
  C10. \<^verbatim>\<open>GET /my/posts\<close> does not read the category, tags, search, author or sortBy
  parameters: whatever they are set to, the answer is the same. The answer is the page of
  the posts whose author is the caller and, when a status is given, whose status is exactly
  that one, newest first; every post of a page is such a post and the page is in descending
  order of creation.
\<close>

theorem my_posts_only_page_limit_status:
  "my_posts rx db u (q\<lparr>q_category := c, q_tags := t, q_search := s, q_author := a, q_sortBy := sb\<rparr>) =
     my_posts rx db u q \<and>
   my_posts rx db u q =
     paginate q (rev (sort_key createdAt
       (filter (\<lambda>p. author p = user_id u \<and>
                     (truthy (q_status q) \<longrightarrow> q_status q = Some (status p))) db))) \<and>
   (\<forall>r. my_posts rx db u q = Inr r \<longrightarrow>
      sorted_wrt (\<lambda>a b. createdAt b \<le> createdAt a) (pg_posts r) \<and>
      (\<forall>p\<in>set (pg_posts r). author p = user_id u \<and>
          (truthy (q_status q) \<longrightarrow> q_status q = Some (status p))))"
proof (intro conjI allI impI)
  let ?q' = "q\<lparr>q_category := c, q_tags := t, q_search := s, q_author := a, q_sortBy := sb\<rparr>"
  have "build_my_query u ?q' = build_my_query u q" by (simp add: build_my_query_def)
  moreover have "paginate ?q' xs = paginate q xs" for xs
    by (simp add: paginate_def page_of_def limit_of_def startIndex_def)
  ultimately show "my_posts rx db u ?q' = my_posts rx db u q" by (simp add: my_posts_def)
next
  show e: "my_posts rx db u q =
     paginate q (rev (sort_key createdAt
       (filter (\<lambda>p. author p = user_id u \<and>
                     (truthy (q_status q) \<longrightarrow> q_status q = Some (status p))) db)))"
  proof -
    have "matches rx (build_my_query u q) =
            (\<lambda>p. author p = user_id u \<and> (truthy (q_status q) \<longrightarrow> q_status q = Some (status p)))"
      by (rule ext) (rule my_filter)
    then show ?thesis by (simp add: my_posts_def sort_posts_def directed_def)
  qed
  fix r
  assume r: "my_posts rx db u q = Inr r"
  let ?f = "filter (\<lambda>p. author p = user_id u \<and>
                         (truthy (q_status q) \<longrightarrow> q_status q = Some (status p))) db"
  from r e have p: "paginate q (rev (sort_key createdAt ?f)) = Inr r" by simp
  show "sorted_wrt (\<lambda>a b. createdAt b \<le> createdAt a) (pg_posts r)"
    by (rule paginate_sorted [OF p sorted_desc_rev_sort_key])
  show "\<forall>p\<in>set (pg_posts r). author p = user_id u \<and>
          (truthy (q_status q) \<longrightarrow> q_status q = Some (status p))"
    using paginate_subset [OF p] by auto
qed

theorem my_posts_only_page_limit_status_witness:
  "my_posts literal_rx [quiet, loved, draft1] alice noisy_params =
     my_posts literal_rx [quiet, loved, draft1] alice no_params \<and>
   my_posts literal_rx [quiet, loved, draft1] alice no_params =
     Inr \<lparr>pg_count = 2, pg_total = 2, pg_next = None, pg_prev = None,
          pg_posts = [quiet, draft1]\<rparr>"
proof -
  have n: "no_params\<lparr>q_category := Some ''Cooking'', q_tags := Some ''a,b'',
             q_search := Some ''zzz'', q_author := Some ''u2'', q_sortBy := Some ''title''\<rparr> =
           noisy_params"
    by (simp add: no_params_def noisy_params_def)
  have f: "filter (\<lambda>p. author p = user_id alice \<and>
                    (truthy (q_status no_params) \<longrightarrow> q_status no_params = Some (status p)))
             [quiet, loved, draft1] = [quiet, draft1]"
    by (simp add: truthy_def no_params_def alice_def quiet_def loved_def draft1_def)
  have s: "rev (sort_key createdAt [quiet, draft1]) = [quiet, draft1]"
    by (simp add: quiet_def draft1_def)
  have m: "page_of no_params = 1 \<and> limit_of no_params = 10 \<and> startIndex no_params = 0"
    by (simp add: no_params_def page_of_def limit_of_def startIndex_def parseInt10_def
        or_default_def)
  have p: "paginate no_params [quiet, draft1] =
     Inr \<lparr>pg_count = 2, pg_total = 2, pg_next = None, pg_prev = None,
          pg_posts = [quiet, draft1]\<rparr>"
    by (simp add: paginate_def m limit_skip_def Let_def)
  note w = my_posts_only_page_limit_status [where rx = literal_rx
      and db = "[quiet, loved, draft1]" and u = alice and q = no_params
      and c = "Some ''Cooking''" and t = "Some ''a,b''" and s = "Some ''zzz''"
      and a = "Some ''u2''" and sb = "Some ''title''"]
  from w have w1: "my_posts literal_rx [quiet, loved, draft1] alice noisy_params =
     my_posts literal_rx [quiet, loved, draft1] alice no_params"
    unfolding n by (rule conjunct1)
  from w have "my_posts literal_rx [quiet, loved, draft1] alice no_params =
     paginate no_params (rev (sort_key createdAt
       (filter (\<lambda>p. author p = user_id alice \<and>
                     (truthy (q_status no_params) \<longrightarrow> q_status no_params = Some (status p)))
          [quiet, loved, draft1])))"
    by (elim conjE)
  then have w2: "my_posts literal_rx [quiet, loved, draft1] alice no_params =
     Inr \<lparr>pg_count = 2, pg_total = 2, pg_next = None, pg_prev = None,
          pg_posts = [quiet, draft1]\<rparr>"
    unfolding f s p .
  from w1 w2 show ?thesis by (intro conjI)
qed

end
